theory Spec2Isabelle
  imports
    Main
    "HOL-Library.Char_ord"
    "HOL-Library.List_Lexorder"
    "HOL-Library.Multiset"
    "HOL-Library.Sublist"
begin

section \<open>El Pais feed-to-EPUB pipeline (run.py)\<close>

text \<open>
  A shallow embedding of \<^verbatim>\<open>run.py\<close>. The program talks to the network, the clock,
  the random generator and the file system; all of that is made explicit:
  \<^item> everything the outside world decides is a field of the record \<open>world\<close>
    (what a server answers, what the article extractor returns, the current date,
    the random draws, what the EPUB writer does);
  \<^item> everything the program changes is a field of the record \<open>state\<close>
    (the trace of network requests and sleeps, the number of random draws, the scratch
    files, the archive written);
  \<^item> every exception is a value of \<open>exn\<close>, and a function that can raise returns
    \<open>exn + 'a\<close>.
  Python text is a \<open>string\<close>, one \<open>char\<close> per code point (code points below 256).
\<close>

subsection \<open>Exceptions\<close>

text \<open>
  The exception classes that occur. All of them derive from \<^verbatim>\<open>Exception\<close>, so
  \<^verbatim>\<open>except Exception\<close> catches each of them; \<^verbatim>\<open>except RequestException\<close> catches
  the classes of the requests library only.
\<close>

datatype exn =
    ConnectionError
  | HTTPError
  | RetryError
  | InvalidSchema
  | InvalidHeader
  | AttributeError
  | TypeError
  | FileNotFoundError
  | ArticleException
  | OtherError

fun is_RequestException :: "exn \<Rightarrow> bool" where
  "is_RequestException ConnectionError = True"
| "is_RequestException HTTPError = True"
| "is_RequestException RetryError = True"
| "is_RequestException InvalidSchema = True"
| "is_RequestException InvalidHeader = True"
| "is_RequestException _ = False"

subsection \<open>Data\<close>

type_synonym bytes = string

type_synonym date = "nat \<times> nat \<times> nat"

text \<open>A \<^verbatim>\<open>datetime\<close>: its date and the seconds since midnight.\<close>

type_synonym datetime = "date \<times> nat"

definition date_of :: "datetime \<Rightarrow> date" where
  "date_of dt = fst dt"

text \<open>An HTTP response: \<^verbatim>\<open>r.status_code\<close> and \<^verbatim>\<open>r.content\<close> (or \<^verbatim>\<open>r.raw\<close>).\<close>

record response =
  status_code :: nat
  content :: bytes

text \<open>The \<^verbatim>\<open>Retry-After\<close> header of a response: absent, a number of seconds to wait (a date
  is taken as the seconds left until it), or a value that cannot be parsed.\<close>

datatype retry_after = NoHeader | Seconds nat | Unparsable

text \<open>What one request sent by the session's adapter meets: no connection (or one that
  breaks or times out), or a response with its \<^verbatim>\<open>Retry-After\<close> header. A redirect is
  followed by requests as a request of its own and is not modelled: a response is a final
  one.\<close>

datatype reply = ConnectionFailed | Response response retry_after

text \<open>An \<^verbatim>\<open><item>\<close> of the feed: the text of its link and category elements, if present.\<close>

record feed_item =
  link :: "string option"
  category :: "string option"

text \<open>A parsed \<^verbatim>\<open>newspaper.Article\<close>, with the attributes the program reads (\<open>article_text\<close> is \<^verbatim>\<open>article.text\<close>).\<close>

record article =
  title :: string
  article_html :: "string option"
  article_text :: string
  publish_date :: "datetime option"
  top_img :: string

text \<open>\<^verbatim>\<open>epub.EpubHtml\<close> (a chapter) and \<^verbatim>\<open>epub.EpubItem\<close> (an image or a stylesheet).\<close>

record epub_html =
  chap_title :: string
  chap_file_name :: string
  chap_lang :: string
  chap_content :: string

record epub_item =
  uid :: string
  file_name :: string
  media_type :: string
  item_content :: bytes

datatype book_item =
    Item epub_item
  | Html epub_html
  | EpubNcx
  | EpubNav

datatype spine_entry = SpineNav | SpineChapter epub_html

record book =
  book_identifier :: string
  book_title :: string
  book_language :: string
  book_authors :: "string list"
  items :: "book_item list"
  toc :: "(string \<times> epub_html list) list"
  spine :: "spine_entry list"

subsection \<open>The world and the state\<close>

text \<open>
  \<open>feed_reply w url k\<close>: what the \<open>k\<close>-th request (from 0) of the session for \<open>url\<close> meets.
  \<open>parse_items w c\<close>: the items \<^verbatim>\<open>BeautifulSoup(c, features="xml").find_all('item')\<close> finds.
  \<open>article_fetch w url k\<close>: what \<^verbatim>\<open>Article(url)\<close>, \<^verbatim>\<open>download()\<close>, \<^verbatim>\<open>parse()\<close> give at
  attempt \<open>k\<close> of one call of the extractor.
  \<open>today w\<close>: \<^verbatim>\<open>datetime.today().date()\<close>, taken as constant during a run.
  \<open>find_all_p w html\<close>: the \<^verbatim>\<open>get_text()\<close> of the \<^verbatim>\<open>p\<close> elements of \<open>html\<close>.
  \<open>image_reply w url\<close>: what \<^verbatim>\<open>requests.get(url, stream=True)\<close> raises or returns; the
  \<open>content\<close> of the response is what the stream \<^verbatim>\<open>response.raw\<close> delivers.
  \<open>stream_error w url\<close>: the exception that interrupts the copy of that stream to the
  scratch file, if any.
  \<open>random_index w k\<close>: the index drawn by the \<open>k\<close>-th \<^verbatim>\<open>random.choice\<close>.
  \<open>write_epub w path b\<close>: what \<^verbatim>\<open>epub.write_epub(path, b, {})\<close> does. The library catches
  an I/O error of its own writing and returns as if nothing had happened, so the call can
  return with the archive written, return with no archive written, or raise.
\<close>

datatype write_result = Written | NotWritten | WriteRaised exn

record world =
  feed_reply :: "string \<Rightarrow> nat \<Rightarrow> reply"
  parse_items :: "bytes \<Rightarrow> feed_item list"
  article_fetch :: "string \<Rightarrow> nat \<Rightarrow> exn + article"
  today :: date
  find_all_p :: "string \<Rightarrow> string list"
  image_reply :: "string \<Rightarrow> exn + response"
  stream_error :: "string \<Rightarrow> exn option"
  random_index :: "nat \<Rightarrow> nat"
  write_epub :: "string \<Rightarrow> book \<Rightarrow> write_result"

datatype event =
    FeedGet string
  | ArticleDownload string
  | ImageGet string
  | Sleep nat
  | WriteEpub string book

text \<open>
  \<open>trace\<close>: the requests, sleeps and calls of the EPUB writer, in order. \<open>rng\<close>: the number
  of random draws made. \<open>files\<close>: the scratch files. \<open>archive\<close>: the archive the writer has
  written in full, with its path.
\<close>

record state =
  trace :: "event list"
  rng :: nat
  files :: "string \<rightharpoonup> bytes"
  archive :: "(string \<times> book) option"

definition emit :: "event \<Rightarrow> state \<Rightarrow> state" where
  "emit ev st = st\<lparr>trace := trace st @ [ev]\<rparr>"

text \<open>What a call of \<^verbatim>\<open>create_epub\<close> ends with: an exception escaping it, or its return value.\<close>

datatype outcome = Raised exn | Returned bool

subsection \<open>Python string operations\<close>

definition nl :: string where
  "nl = [CHR 0x0A]"

text \<open>\<^verbatim>\<open>str.isspace\<close> on one character (code points below 256).\<close>

definition isspace :: "char \<Rightarrow> bool" where
  "isspace c = ((of_char c :: nat) \<in> {9, 10, 11, 12, 13, 28, 29, 30, 31, 32, 133, 160})"

text \<open>\<^verbatim>\<open>s.strip()\<close>\<close>

definition strip :: "string \<Rightarrow> string" where
  "strip s = rev (dropWhile isspace (rev (dropWhile isspace s)))"

text \<open>\<^verbatim>\<open>s.split(sep)\<close> for a non-empty separator (Python raises ValueError on an empty one;
  the program's separator is a constant of two characters).\<close>

function split :: "string \<Rightarrow> string \<Rightarrow> string list" where
  "split sep s =
     (if sep = [] then [s]
      else if s = [] then [[]]
      else if prefix sep s then [] # split sep (drop (length sep) s)
      else (case split sep (tl s) of
              [] \<Rightarrow> [[hd s]]
            | r # rs \<Rightarrow> (hd s # r) # rs))"
  by pat_completeness auto
termination
  by (relation "measure (\<lambda>(sep, s). length s)") auto

declare split.simps [simp del]

text \<open>\<^verbatim>\<open>sep.join(xs)\<close>\<close>

fun join :: "string \<Rightarrow> string list \<Rightarrow> string" where
  "join sep [] = []"
| "join sep [x] = x"
| "join sep (x # y # ys) = x @ sep @ join sep (y # ys)"

text \<open>\<^verbatim>\<open>s.replace(a, b)\<close> for single characters \<open>a\<close> and \<open>b\<close>.\<close>

definition replace :: "char \<Rightarrow> char \<Rightarrow> string \<Rightarrow> string" where
  "replace a b s = map (\<lambda>c. if c = a then b else c) s"

text \<open>\<^verbatim>\<open>s.lower()\<close> (code points below 256).\<close>

definition lower_char :: "char \<Rightarrow> char" where
  "lower_char c =
     (let n = (of_char c :: nat) in
      if (65 \<le> n \<and> n \<le> 90) \<or> (192 \<le> n \<and> n \<le> 222 \<and> n \<noteq> 215) then char_of (n + 32) else c)"

definition lower :: "string \<Rightarrow> string" where
  "lower s = map lower_char s"

text \<open>How an f-string prints a value that may be \<^verbatim>\<open>None\<close>.\<close>

definition fstr :: "string option \<Rightarrow> string" where
  "fstr v = (case v of None \<Rightarrow> ''None'' | Some s \<Rightarrow> s)"

text \<open>Truthiness of a string attribute that may be \<^verbatim>\<open>None\<close> or empty.\<close>

definition truthy :: "string option \<Rightarrow> bool" where
  "truthy v = (case v of None \<Rightarrow> False | Some s \<Rightarrow> s \<noteq> [])"

subsection \<open>The session with retries\<close>

text \<open>
  \<^verbatim>\<open>Retry(total=5, backoff_factor=1, status_forcelist=[500, 502, 503, 504])\<close>. An adapter
  is modelled by its \<^verbatim>\<open>max_retries\<close>, and \<^verbatim>\<open>session.adapters\<close>, an ordered dictionary
  from prefix to adapter, by the list \<open>mounts\<close>.
\<close>

record retry =
  total :: nat
  backoff_factor :: nat
  status_forcelist :: "nat list"

record session =
  mounts :: "(string \<times> retry) list"

text \<open>
  \<^verbatim>\<open>session.mount(prefix, adapter)\<close>: the entry is set (in place when the prefix is
  mounted already, at the end otherwise), then the shorter prefixes are moved to the end.
\<close>

definition mount :: "string \<Rightarrow> retry \<Rightarrow> session \<Rightarrow> session" where
  "mount p adapter s =
     (let adapters =
            (if p \<in> set (map fst (mounts s))
             then map (\<lambda>(k, a). if k = p then (k, adapter) else (k, a)) (mounts s)
             else mounts s @ [(p, adapter)]);
          keys_to_move = filter (\<lambda>(k, a). length k < length p) adapters
      in \<lparr>mounts = filter (\<lambda>(k, a). \<not> length k < length p) adapters @ keys_to_move\<rparr>)"

text \<open>\<^verbatim>\<open>requests.Session()\<close> mounts a default adapter, which does not retry, for both
  schemes.\<close>

definition default_retries :: retry where
  "default_retries = \<lparr>total = 0, backoff_factor = 0, status_forcelist = []\<rparr>"

definition Session :: session where
  "Session = mount ''http://'' default_retries (mount ''https://'' default_retries \<lparr>mounts = []\<rparr>)"

definition retries :: retry where
  "retries = \<lparr>total = 5, backoff_factor = 1, status_forcelist = [500, 502, 503, 504]\<rparr>"

definition create_session_with_retries :: session where
  "create_session_with_retries =
     (let session = Session; adapter = retries
      in mount ''https://'' adapter (mount ''http://'' adapter session))"

text \<open>
  The adapter's retry loop is the library's (urllib3, \<^verbatim>\<open>Retry\<close> and \<^verbatim>\<open>urlopen\<close>), for a
  GET request.

  \<open>backoff_time r h\<close> is \<^verbatim>\<open>get_backoff_time\<close> after \<open>h\<close> consecutive failures: nothing
  after the first one, then \<open>backoff_factor * 2 ^ (h - 1)\<close>, at most 120 seconds. So the first
  retry follows at once; the comment of the source (wait 1, 2, 4, 8, 16 seconds) is not what
  the library does. \<^verbatim>\<open>_sleep_backoff\<close> does not call \<^verbatim>\<open>time.sleep\<close> for a time of 0.

  \<open>is_retry r n status has_retry_after\<close> is \<^verbatim>\<open>Retry.is_retry\<close> when \<open>total\<close> is \<open>n\<close>: the status
  is in \<open>status_forcelist\<close>, or retries are left and the response has a \<^verbatim>\<open>Retry-After\<close>
  header and the status 413, 429 or 503.

  \<open>sleep_retry r h ra st\<close> is \<^verbatim>\<open>Retry.sleep(response)\<close>: the time the \<^verbatim>\<open>Retry-After\<close>
  header asks for when it is there and not 0, else the backoff; a header that cannot be
  parsed raises.

  \<open>send r w url h n st\<close>: request number \<open>h\<close> (from 0, so after \<open>h\<close> failures), with \<open>total\<close>
  at \<open>n\<close>. A failure decrements \<open>total\<close> and the retries are used up when it falls below 0:
  \<open>total = 5\<close> allows 5 retries, 6 requests. Then the library raises, and requests turns
  this into a \<^verbatim>\<open>ConnectionError\<close>, or a \<^verbatim>\<open>RetryError\<close> for a status.
\<close>

definition backoff_time :: "retry \<Rightarrow> nat \<Rightarrow> nat" where
  "backoff_time r h = (if h \<le> 1 then 0 else min 120 (backoff_factor r * 2 ^ (h - 1)))"

definition sleep_backoff :: "retry \<Rightarrow> nat \<Rightarrow> state \<Rightarrow> state" where
  "sleep_backoff r h st =
     (let backoff = backoff_time r h in
      if backoff \<le> 0 then st else emit (Sleep backoff) st)"

definition is_retry :: "retry \<Rightarrow> nat \<Rightarrow> nat \<Rightarrow> bool \<Rightarrow> bool" where
  "is_retry r n status has_retry_after =
     ((status_forcelist r \<noteq> [] \<and> status \<in> set (status_forcelist r))
      \<or> (n \<noteq> 0 \<and> has_retry_after \<and> status \<in> {413, 429, 503}))"

definition sleep_retry :: "retry \<Rightarrow> nat \<Rightarrow> retry_after \<Rightarrow> state \<Rightarrow> exn + state" where
  "sleep_retry r h ra st =
     (case ra of
        NoHeader \<Rightarrow> Inr (sleep_backoff r h st)
      | Seconds s \<Rightarrow> (if s \<noteq> 0 then Inr (emit (Sleep s) st) else Inr (sleep_backoff r h st))
      | Unparsable \<Rightarrow> Inl InvalidHeader)"

fun send :: "retry \<Rightarrow> world \<Rightarrow> string \<Rightarrow> nat \<Rightarrow> nat \<Rightarrow> state \<Rightarrow> (exn + response) \<times> state" where
  "send r w url h 0 st =
     (let st1 = emit (FeedGet url) st in
      case feed_reply w url h of
        ConnectionFailed \<Rightarrow> (Inl ConnectionError, st1)
      | Response resp ra \<Rightarrow>
          (if is_retry r 0 (status_code resp) (ra \<noteq> NoHeader) then (Inl RetryError, st1)
           else (Inr resp, st1)))"
| "send r w url h (Suc n) st =
     (let st1 = emit (FeedGet url) st in
      case feed_reply w url h of
        ConnectionFailed \<Rightarrow> send r w url (Suc h) n (sleep_backoff r (Suc h) st1)
      | Response resp ra \<Rightarrow>
          (if is_retry r (Suc n) (status_code resp) (ra \<noteq> NoHeader) then
             (case sleep_retry r (Suc h) ra st1 of
                Inl e \<Rightarrow> (Inl e, st1)
              | Inr st2 \<Rightarrow> send r w url (Suc h) n st2)
           else (Inr resp, st1)))"

text \<open>
  \<^verbatim>\<open>session.get(url, timeout=30)\<close>: the first adapter of \<^verbatim>\<open>session.adapters\<close> whose prefix,
  in lower case, starts the URL in lower case; an \<^verbatim>\<open>InvalidSchema\<close> when there is none.
  (A URL that requests refuses while it prepares the request raises a \<^verbatim>\<open>MissingSchema\<close> or
  an \<^verbatim>\<open>InvalidURL\<close> instead, a \<^verbatim>\<open>RequestException\<close> as well; a timeout is a failed
  connection.)
\<close>

definition get_adapter :: "session \<Rightarrow> string \<Rightarrow> retry option" where
  "get_adapter s url =
     (case filter (\<lambda>(p, adapter). prefix (lower p) (lower url)) (mounts s) of
        [] \<Rightarrow> None
      | (p, adapter) # rest \<Rightarrow> Some adapter)"

definition session_get :: "session \<Rightarrow> world \<Rightarrow> string \<Rightarrow> state \<Rightarrow> (exn + response) \<times> state" where
  "session_get s w url st =
     (case get_adapter s url of
        None \<Rightarrow> (Inl InvalidSchema, st)
      | Some r \<Rightarrow> send r w url 0 (total r) st)"

text \<open>\<^verbatim>\<open>r.raise_for_status()\<close>: an \<^verbatim>\<open>HTTPError\<close> for a 4xx or 5xx status.\<close>

definition raise_for_status :: "response \<Rightarrow> exn + unit" where
  "raise_for_status r =
     (if 400 \<le> status_code r \<and> status_code r < 600 then Inl HTTPError else Inr ())"

text \<open>The body of the first \<^verbatim>\<open>try\<close> of \<^verbatim>\<open>create_epub\<close> (lines 70 and 71).\<close>

definition get_feed :: "session \<Rightarrow> world \<Rightarrow> string \<Rightarrow> state \<Rightarrow> (exn + response) \<times> state" where
  "get_feed s w rss_feed st =
     (case session_get s w rss_feed st of
        (Inl e, st1) \<Rightarrow> (Inl e, st1)
      | (Inr r, st1) \<Rightarrow>
          (case raise_for_status r of
             Inl e \<Rightarrow> (Inl e, st1)
           | Inr _ \<Rightarrow> (Inr r, st1)))"

subsection \<open>download_article_with_retry\<close>

text \<open>
  The loop \<^verbatim>\<open>for attempt in range(max_retries)\<close>, as a recursion over the list of the
  attempts still to make; the \<^verbatim>\<open>return None\<close> after the loop is the empty list.
\<close>

fun attempts :: "world \<Rightarrow> string \<Rightarrow> nat \<Rightarrow> nat list \<Rightarrow> state \<Rightarrow> article option \<times> state" where
  "attempts w url max_retries [] st = (None, st)"
| "attempts w url max_retries (attempt # rest) st =
     (let st1 = emit (ArticleDownload url) st in
      case article_fetch w url attempt of
        Inr a \<Rightarrow> (Some a, st1)
      | Inl e \<Rightarrow>
          (if int attempt = int max_retries - 1 then (None, st1)
           else attempts w url max_retries rest (emit (Sleep (2 ^ attempt)) st1)))"

definition download_article_with_retry ::
    "world \<Rightarrow> string \<Rightarrow> nat \<Rightarrow> state \<Rightarrow> article option \<times> state" where
  "download_article_with_retry w url max_retries st =
     attempts w url max_retries [0..<max_retries] st"

subsection \<open>download_image\<close>

definition ascii_letters :: string where
  "ascii_letters = ''abcdefghijklmnopqrstuvwxyzABCDEFGHIJKLMNOPQRSTUVWXYZ''"

text \<open>Ten draws of \<^verbatim>\<open>random.choice(string.ascii_letters)\<close>, starting at draw \<open>n\<close>.\<close>

definition random_name :: "world \<Rightarrow> nat \<Rightarrow> string" where
  "random_name w n =
     map (\<lambda>x. ascii_letters ! (random_index w (n + x) mod length ascii_letters)) [0..<10]"

text \<open>
  The name is drawn and the file opened once the status has passed; an exception that
  interrupts the copy of the stream leaves the file behind. Such an exception comes from
  the stream itself and goes through the handler like any other.
\<close>

definition download_image :: "world \<Rightarrow> string \<Rightarrow> state \<Rightarrow> (exn + string option) \<times> state" where
  "download_image w url st =
     (let st1 = emit (ImageGet url) st;
          handler = (\<lambda>e s. if is_RequestException e then (Inr None, s) else (Inl e, s))
      in case image_reply w url of
           Inl e \<Rightarrow> handler e st1
         | Inr resp \<Rightarrow>
             (case raise_for_status resp of
                Inl e \<Rightarrow> handler e st1
              | Inr _ \<Rightarrow>
                  (let filename = random_name w (rng st1);
                       path = filename @ ''.jpeg'';
                       st2 = st1\<lparr>rng := rng st1 + 10, files := (files st1)(path \<mapsto> content resp)\<rparr>
                   in case stream_error w url of
                        Some e \<Rightarrow> handler e st2
                      | None \<Rightarrow> (Inr (Some path), st2))))"

subsection \<open>The content normalizer (lines 117 to 124)\<close>

definition wrap_p :: "string \<Rightarrow> string" where
  "wrap_p p = ''<p>'' @ p @ ''</p>''"

definition article_content :: "world \<Rightarrow> article \<Rightarrow> string" where
  "article_content w a =
     (if truthy (article_html a) then
        (let paragraphs = find_all_p w (case article_html a of Some h \<Rightarrow> h | None \<Rightarrow> [])
         in join nl (map wrap_p paragraphs))
      else
        (let paragraphs = split (nl @ nl) (article_text a)
         in join nl (map (\<lambda>p. wrap_p (strip p)) (filter (\<lambda>p. strip p \<noteq> []) paragraphs))))"

subsection \<open>Building one chapter (the body of the per-item try, lines 116 to 165)\<close>

definition chapter_name :: "string \<Rightarrow> string" where
  "chapter_name t = take 30 (replace (CHR ''/'') (CHR ''_'') (replace (CHR '' '') (CHR ''_'') t))"

definition indent :: "nat \<Rightarrow> string" where
  "indent n = replicate n (CHR '' '')"

definition dq :: string where
  "dq = [CHR 0x22]"

text \<open>The f-string of lines 136 to 147.\<close>

definition chapter_markup :: "string \<Rightarrow> string \<Rightarrow> string option \<Rightarrow> string \<Rightarrow> string \<Rightarrow> string" where
  "chapter_markup t cat epubtop_image_path img body =
     nl @ indent 12 @ ''<html>'' @
     nl @ indent 16 @ ''<head>'' @
     nl @ indent 20 @ ''<title>'' @ t @ ''</title>'' @
     nl @ indent 16 @ ''</head>'' @
     nl @ indent 16 @ ''<body>'' @
     nl @ indent 20 @ ''<h1>'' @ t @ ''</h1>'' @
     nl @ indent 20 @ ''<h3>'' @ cat @ ''</h3>'' @
     nl @ indent 20 @ ''<img src='' @ dq @ fstr epubtop_image_path @ dq @
                      '' alt='' @ dq @ img @ dq @ ''/>  '' @ body @
     nl @ indent 16 @ ''</body>'' @
     nl @ indent 12 @ ''</html>'' @
     nl @ indent 12"

text \<open>
  The result is the image item and the chapter that lines 163 to 165 add to the book. An
  exception leaves the book and the chapter list as they were, since they are only changed
  after the last statement that can raise. \<^verbatim>\<open>open(None, 'rb')\<close> raises a TypeError.
\<close>

definition build_chapter ::
    "world \<Rightarrow> string \<Rightarrow> article \<Rightarrow> state \<Rightarrow> (exn + epub_item \<times> epub_html) \<times> state" where
  "build_chapter w cat a st =
     (let body = article_content w a;
          chap = \<lparr>chap_title = title a, chap_file_name = chapter_name (title a) @ ''.xhtml'',
                  chap_lang = ''es'', chap_content = []\<rparr>
      in case download_image w (top_img a) st of
           (Inl e, st1) \<Rightarrow> (Inl e, st1)
         | (Inr epubtop_image_path, st1) \<Rightarrow>
             (let chap1 = chap\<lparr>chap_content :=
                            chapter_markup (title a) cat epubtop_image_path (top_img a) body\<rparr>
              in case epubtop_image_path of
                   None \<Rightarrow> (Inl TypeError, st1)
                 | Some path \<Rightarrow>
                     (case files st1 path of
                        None \<Rightarrow> (Inl FileNotFoundError, st1)
                      | Some b_image1 \<Rightarrow>
                          (let image1_item = \<lparr>uid = path, file_name = path,
                                               media_type = ''image/jpeg'', item_content = b_image1\<rparr>
                           in (Inr (image1_item, chap1), st1)))))"

subsection \<open>The batch loop (lines 93 to 169)\<close>

text \<open>
  \<^verbatim>\<open>article.publish_date.date()\<close> is evaluated (first by the print of lines 100 to 110)
  outside the try: on an article without a publish date it raises an AttributeError that
  no handler of \<^verbatim>\<open>create_epub\<close> catches.
\<close>

fun process_articles ::
    "world \<Rightarrow> (string \<times> string) list \<Rightarrow> book \<Rightarrow> epub_html list \<Rightarrow> state
      \<Rightarrow> (exn + book \<times> epub_html list) \<times> state" where
  "process_articles w [] book chapters st = (Inr (book, chapters), st)"
| "process_articles w ((url, cat) # rest) book chapters st =
     (case download_article_with_retry w url 3 st of
        (None, st1) \<Rightarrow> process_articles w rest book chapters st1
      | (Some a, st1) \<Rightarrow>
          (case publish_date a of
             None \<Rightarrow> (Inl AttributeError, st1)
           | Some d \<Rightarrow>
               (if date_of d \<noteq> today w then process_articles w rest book chapters st1
                else (case build_chapter w cat a st1 of
                        (Inl e, st2) \<Rightarrow> process_articles w rest book chapters st2
                      | (Inr (image1_item, chap), st2) \<Rightarrow>
                          process_articles w rest
                            (book\<lparr>items := items book @ [Item image1_item, Html chap]\<rparr>)
                            (chapters @ [chap]) st2))))"

subsection \<open>create_epub\<close>

text \<open>Lines 76 to 78: \<^verbatim>\<open>item.find(...)\<close> is \<^verbatim>\<open>None\<close> for a missing element, and
  \<^verbatim>\<open>None.text\<close> raises an AttributeError.\<close>

fun item_pairs :: "feed_item list \<Rightarrow> exn + (string \<times> string) list" where
  "item_pairs [] = Inr []"
| "item_pairs (i # rest) =
     (case link i of
        None \<Rightarrow> Inl AttributeError
      | Some l \<Rightarrow>
          (case category i of
             None \<Rightarrow> Inl AttributeError
           | Some c \<Rightarrow>
               (case item_pairs rest of
                  Inl e \<Rightarrow> Inl e
                | Inr ps \<Rightarrow> Inr ((l, c) # ps))))"

text \<open>
  Line 79, \<^verbatim>\<open>articles.sort(key=lambda x: x[1], reverse=True)\<close>. Python's sort is stable,
  and with \<^verbatim>\<open>reverse=True\<close> it reverses the list, sorts it in ascending order and
  reverses the result.
\<close>

definition sort_articles :: "(string \<times> string) list \<Rightarrow> (string \<times> string) list" where
  "sort_articles articles = rev (sort_key snd (rev articles))"

text \<open>Lines 84 to 88. The title literal holds two code points above 255, written here
  as their UTF-8 bytes.\<close>

definition new_book :: book where
  "new_book =
     \<lparr>book_identifier = ''id123456'',
      book_title = ''El Pa'' @ [CHR 0xE2, CHR 0x88, CHR 0x9A, CHR 0xE2, CHR 0x89, CHR 0xA0] @ ''s Articles'',
      book_language = ''es'',
      book_authors = [''RSS Feed Generator''],
      items = [], toc = [], spine = []\<rparr>"

text \<open>The stylesheet of lines 183 to 199, by its lines.\<close>

definition style :: string where
  "style =
     nl @ indent 8 @ ''@namespace epub '' @ dq @ ''http://www.idpf.org/2007/ops'' @ dq @ '';'' @
     nl @ indent 8 @ ''body {'' @
     nl @ indent 12 @ ''font-family: Arial, sans-serif;'' @
     nl @ indent 12 @ ''line-height: 1.6;'' @
     nl @ indent 12 @ ''margin: 2em;'' @
     nl @ indent 8 @ ''}'' @
     nl @ indent 8 @ ''h1 {'' @
     nl @ indent 12 @ ''text-align: center;'' @
     nl @ indent 12 @ ''padding: 20px;'' @
     nl @ indent 12 @ ''margin-bottom: 1.5em;'' @
     nl @ indent 8 @ ''}'' @
     nl @ indent 8 @ ''p {'' @
     nl @ indent 12 @ ''margin-bottom: 1em;'' @
     nl @ indent 12 @ ''text-align: justify;'' @
     nl @ indent 8 @ ''}'' @
     nl @ indent 4"

definition nav_css :: epub_item where
  "nav_css = \<lparr>uid = ''style_nav'', file_name = ''style/nav.css'',
              media_type = ''text/css'', item_content = style\<rparr>"

text \<open>Lines 176 to 210: table of contents, navigation files, stylesheet and spine.\<close>

definition finish_book :: "book \<Rightarrow> epub_html list \<Rightarrow> book" where
  "finish_book book chapters =
     book\<lparr>toc := [(''Articles'', chapters)],
          items := items book @ [EpubNcx, EpubNav, Item nav_css],
          spine := SpineNav # map SpineChapter chapters\<rparr>"

definition create_epub :: "world \<Rightarrow> string \<Rightarrow> string \<Rightarrow> state \<Rightarrow> outcome \<times> state" where
  "create_epub w rss_feed output_filename st =
     (let session = create_session_with_retries in
      case get_feed session w rss_feed st of
        (Inl e, st1) \<Rightarrow>
          (if is_RequestException e then (Returned False, st1) else (Raised e, st1))
      | (Inr r, st1) \<Rightarrow>
          (case item_pairs (parse_items w (content r)) of
             Inl e \<Rightarrow> (Raised e, st1)
           | Inr pairs \<Rightarrow>
               (let articles = sort_articles pairs in
                case process_articles w articles new_book [] st1 of
                  (Inl e, st2) \<Rightarrow> (Raised e, st2)
                | (Inr (book, chapters), st2) \<Rightarrow>
                    (if chapters = [] then (Returned False, st2)
                     else
                       (let book1 = finish_book book chapters;
                            st3 = emit (WriteEpub output_filename book1) st2
                        in case write_epub w output_filename book1 of
                             Written \<Rightarrow>
                               (Returned True, st3\<lparr>archive := Some (output_filename, book1)\<rparr>)
                           | NotWritten \<Rightarrow> (Returned True, st3)
                           | WriteRaised e \<Rightarrow> (Returned False, st3))))))"

section \<open>Notions used to state the properties\<close>

subsection \<open>Reading a trace\<close>

fun sleep_of :: "event \<Rightarrow> nat option" where
  "sleep_of (Sleep d) = Some d"
| "sleep_of _ = None"

definition sleeps :: "event list \<Rightarrow> nat list" where
  "sleeps tr = List.map_filter sleep_of tr"


fun is_ArticleDownload :: "event \<Rightarrow> bool" where
  "is_ArticleDownload (ArticleDownload _) = True"
| "is_ArticleDownload _ = False"

fun is_WriteEpub :: "event \<Rightarrow> bool" where
  "is_WriteEpub (WriteEpub _ _) = True"
| "is_WriteEpub _ = False"

text \<open>The calls of the EPUB writer made so far.\<close>

definition write_calls :: "state \<Rightarrow> event list" where
  "write_calls st = filter is_WriteEpub (trace st)"

text \<open>The events of the feed fetch: its requests and the waits between them.\<close>

fun feed_event :: "event \<Rightarrow> bool" where
  "feed_event (FeedGet _) = True"
| "feed_event (Sleep _) = True"
| "feed_event _ = False"

subsection \<open>The retry loop on replies that carry no Retry-After header\<close>


text \<open>The reply is a connection failure or has a status of \<open>status_forcelist\<close>.\<close>

definition retryable :: "retry \<Rightarrow> reply \<Rightarrow> bool" where
  "retryable r rep =
     (case rep of
        ConnectionFailed \<Rightarrow> True
      | Response resp ra \<Rightarrow> status_code resp \<in> set (status_forcelist r))"


text \<open>A wait of \<open>d\<close> seconds in the trace: no call of \<^verbatim>\<open>time.sleep\<close> for 0.\<close>

definition sleep_events :: "nat \<Rightarrow> event list" where
  "sleep_events d = (if d = 0 then [] else [Sleep d])"



definition initial_state :: state where
  "initial_state = \<lparr>trace = [], rng = 0, files = Map.empty, archive = None\<rparr>"

subsection \<open>What the world decides about one feed item\<close>

text \<open>The article the extractor returns for a URL; it does not depend on the state.\<close>

definition article_of :: "world \<Rightarrow> string \<Rightarrow> article option" where
  "article_of w url = fst (download_article_with_retry w url 3 initial_state)"

text \<open>The request for the lead image raises nothing and the status passes
  \<^verbatim>\<open>raise_for_status\<close>: a scratch-file name is drawn.\<close>

definition image_served :: "world \<Rightarrow> article \<Rightarrow> bool" where
  "image_served w a =
     (case image_reply w (top_img a) of
        Inl e \<Rightarrow> False
      | Inr resp \<Rightarrow> raise_for_status resp = Inr ())"

text \<open>The lead image is captured: served, and copied to the scratch file in full.\<close>

definition captured :: "world \<Rightarrow> article \<Rightarrow> bool" where
  "captured w a = (image_served w a \<and> stream_error w (top_img a) = None)"

text \<open>The item gets as far as drawing a scratch-file name: extracted, dated today, image
  served.\<close>

definition draws_name :: "world \<Rightarrow> string \<times> string \<Rightarrow> bool" where
  "draws_name w it =
     (case article_of w (fst it) of
        None \<Rightarrow> False
      | Some a \<Rightarrow>
          (case publish_date a of
             None \<Rightarrow> False
           | Some d \<Rightarrow> date_of d = today w \<and> image_served w a))"

text \<open>The item ends as a chapter: extracted, dated today, image captured.\<close>

definition item_ok :: "world \<Rightarrow> string \<times> string \<Rightarrow> bool" where
  "item_ok w it =
     (case article_of w (fst it) of
        None \<Rightarrow> False
      | Some a \<Rightarrow>
          (case publish_date a of
             None \<Rightarrow> False
           | Some d \<Rightarrow> date_of d = today w \<and> captured w a))"

text \<open>The item is extracted, but its article has no publish date.\<close>

definition dateless :: "world \<Rightarrow> string \<times> string \<Rightarrow> bool" where
  "dateless w it =
     (case article_of w (fst it) of
        None \<Rightarrow> False
      | Some a \<Rightarrow> publish_date a = None)"

text \<open>The chapter of an item whose image was stored under \<open>path\<close>.\<close>

definition chapter_of :: "world \<Rightarrow> string \<times> string \<Rightarrow> string \<Rightarrow> epub_html" where
  "chapter_of w it path =
     (case article_of w (fst it) of
        None \<Rightarrow> \<lparr>chap_title = [], chap_file_name = [], chap_lang = [], chap_content = []\<rparr>
      | Some a \<Rightarrow>
          \<lparr>chap_title = title a,
           chap_file_name = chapter_name (title a) @ ''.xhtml'',
           chap_lang = ''es'',
           chap_content =
             chapter_markup (title a) (snd it) (Some path) (top_img a) (article_content w a)\<rparr>)"

text \<open>The scratch-file paths of the items of \<open>its\<close> that end as chapters, in a run that
  comes to \<open>its\<close> after \<open>n\<close> random draws: each item that draws a name takes ten draws.\<close>

fun paths_of :: "world \<Rightarrow> nat \<Rightarrow> (string \<times> string) list \<Rightarrow> string list" where
  "paths_of w n [] = []"
| "paths_of w n (it # its) =
     (if item_ok w it then (random_name w n @ ''.jpeg'') # paths_of w (n + 10) its
      else if draws_name w it then paths_of w (n + 10) its
      else paths_of w n its)"

text \<open>The image item of an item whose image was stored under \<open>path\<close>.\<close>

definition image_of :: "world \<Rightarrow> string \<times> string \<Rightarrow> string \<Rightarrow> epub_item" where
  "image_of w it path =
     \<lparr>uid = path, file_name = path, media_type = ''image/jpeg'',
      item_content =
        (case article_of w (fst it) of
           None \<Rightarrow> []
         | Some a \<Rightarrow> (case image_reply w (top_img a) of Inl e \<Rightarrow> [] | Inr resp \<Rightarrow> content resp))\<rparr>"

text \<open>What the loop adds to the book for the items \<open>its\<close>, stored under \<open>paths\<close>.\<close>

definition added_items :: "world \<Rightarrow> (string \<times> string) list \<Rightarrow> string list \<Rightarrow> book_item list" where
  "added_items w its paths =
     concat (map (\<lambda>(it, path). [Item (image_of w it path), Html (chapter_of w it path)])
               (zip its paths))"

text \<open>The chapters of the items \<open>its\<close>, stored under \<open>paths\<close>, in the order of \<open>its\<close>.\<close>

definition chapters_of :: "world \<Rightarrow> (string \<times> string) list \<Rightarrow> string list \<Rightarrow> epub_html list" where
  "chapters_of w its paths = map (\<lambda>(it, path). chapter_of w it path) (zip its paths)"

text \<open>The book handed to the writer by a run that works through the items \<open>its\<close> and
  comes to them after \<open>n\<close> random draws.\<close>

definition final_book :: "world \<Rightarrow> (string \<times> string) list \<Rightarrow> nat \<Rightarrow> book" where
  "final_book w its n =
     finish_book (new_book\<lparr>items := added_items w (filter (item_ok w) its) (paths_of w n its)\<rparr>)
       (chapters_of w (filter (item_ok w) its) (paths_of w n its))"

text \<open>The chapters among the items of a book, in the order of the items.\<close>

fun html_of :: "book_item \<Rightarrow> epub_html option" where
  "html_of (Html c) = Some c"
| "html_of _ = None"

definition html_items :: "book \<Rightarrow> epub_html list" where
  "html_items b = List.map_filter html_of (items b)"

text \<open>The items that end as chapters, in the order the loop works through them: that of
  the feed's pairs, sorted.\<close>

definition successful :: "world \<Rightarrow> (string \<times> string) list \<Rightarrow> (string \<times> string) list" where
  "successful w pairs = filter (item_ok w) (sort_articles pairs)"

subsection \<open>The normalizer's fallback, in the words of the specification\<close>

text \<open>
  Split the plain-text body on blank-line boundaries, trim each segment, discard the empty
  ones, wrap each remaining one as a paragraph element, join by newlines.
\<close>

definition blank_line :: string where
  "blank_line = [CHR 0x0A, CHR 0x0A]"

definition normalize_plain_text :: "string \<Rightarrow> string" where
  "normalize_plain_text body =
     (let segments = split blank_line body;
          trimmed = map strip segments;
          kept = filter (\<lambda>seg. seg \<noteq> []) trimmed
      in join nl (map wrap_p kept))"

subsection \<open>Example worlds\<close>

definition jan2 :: date where
  "jan2 = (2025, 1, 2)"

definition demo_article :: "string \<Rightarrow> article" where
  "demo_article t =
     \<lparr>title = t, article_html = None,
      article_text = ''uno'' @ nl @ nl @ '' dos '' @ nl @ nl @ nl @ nl @ ''tres'',
      publish_date = Some (jan2, 3600), top_img = ''https://img/'' @ t\<rparr>"

text \<open>
  Five items. The article of \<open>u1\<close> is extracted at once, that of \<open>u2\<close> at the second
  attempt, that of \<open>u3\<close> never; the article of \<open>u4\<close> is dated the day before; the image
  of the article of \<open>u5\<close> breaks off while it is copied.
\<close>

definition demo_fetch :: "string \<Rightarrow> nat \<Rightarrow> exn + article" where
  "demo_fetch url k =
     (if url = ''u1'' then Inr (demo_article ''A 1'')
      else if url = ''u2'' then (if k = 0 then Inl ArticleException else Inr (demo_article ''B/2''))
      else if url = ''u4'' then Inr ((demo_article ''D 4'')\<lparr>publish_date := Some ((2025, 1, 1), 0)\<rparr>)
      else if url = ''u5'' then Inr (demo_article ''E 5'')
      else Inl ArticleException)"

definition demo_world :: world where
  "demo_world =
     \<lparr>feed_reply = (\<lambda>url k. Response \<lparr>status_code = 200, content = ''<rss/>''\<rparr> NoHeader),
      parse_items = (\<lambda>c. [\<lparr>link = Some ''u1'', category = Some ''economia''\<rparr>,
                           \<lparr>link = Some ''u2'', category = Some ''internacional''\<rparr>,
                           \<lparr>link = Some ''u5'', category = Some ''internacional''\<rparr>,
                           \<lparr>link = Some ''u3'', category = Some ''economia''\<rparr>,
                           \<lparr>link = Some ''u4'', category = Some ''deportes''\<rparr>]),
      article_fetch = demo_fetch,
      today = jan2,
      find_all_p = (\<lambda>h. []),
      image_reply = (\<lambda>url. Inr \<lparr>status_code = 200, content = ''JPEG''\<rparr>),
      stream_error = (\<lambda>url. if url = ''https://img/E 5'' then Some OtherError else None),
      random_index = (\<lambda>k. 7 * k),
      write_epub = (\<lambda>path b. Written)\<rparr>"

definition demo_pairs :: "(string \<times> string) list" where
  "demo_pairs =
     [(''u1'', ''economia''), (''u2'', ''internacional''), (''u5'', ''internacional''),
      (''u3'', ''economia''), (''u4'', ''deportes'')]"

text \<open>A feed of one item, the article of \<open>u1\<close>.\<close>

definition single_world :: world where
  "single_world =
     demo_world\<lparr>parse_items := (\<lambda>c. [\<lparr>link = Some ''u1'', category = Some ''economia''\<rparr>])\<rparr>"

definition feed_url :: string where
  "feed_url = ''https://feeds.elpais.com/portada''"

text \<open>A feed server that answers 503 to the first \<open>n\<close> requests and 200 afterwards.\<close>

definition flaky_feed :: "nat \<Rightarrow> world" where
  "flaky_feed n =
     demo_world\<lparr>feed_reply :=
       (\<lambda>url k. Response \<lparr>status_code = (if k < n then 503 else 200), content = ''<rss/>''\<rparr>
                  NoHeader)\<rparr>"

text \<open>Variations of the one-item feed: the EPUB writer raises; the EPUB writer returns
  without having written; the image server answers 404; the article has no publish date.
  And the five-item feed read a day later.\<close>

definition write_failing :: world where
  "write_failing = single_world\<lparr>write_epub := (\<lambda>path b. WriteRaised OtherError)\<rparr>"

definition write_swallowed :: world where
  "write_swallowed = single_world\<lparr>write_epub := (\<lambda>path b. NotWritten)\<rparr>"

definition image_failing :: world where
  "image_failing =
     single_world\<lparr>image_reply := (\<lambda>url. Inr \<lparr>status_code = 404, content = []\<rparr>)\<rparr>"

definition undated :: world where
  "undated =
     single_world\<lparr>article_fetch := (\<lambda>url k. Inr ((demo_article ''A 1'')\<lparr>publish_date := None\<rparr>))\<rparr>"

definition next_day :: world where
  "next_day = demo_world\<lparr>today := (2025, 1, 3)\<rparr>"

section \<open>Properties\<close>

subsection \<open>The article extractor\<close>

lemma upt_three: "[0..<3] = [0, Suc 0, 2::nat]"
  by (simp add: upt_rec numeral_3_eq_3)

text \<open>
  C3 (as amended). The article extractor makes up to 3 attempts per URL. Each attempt is
  an independent fetch and parse, and any exception makes it a failed attempt. After a
  failed attempt that is not the last one it waits \<open>2 ^ attempt\<close> seconds, \<open>attempt\<close>
  counted from 0: 1 second after the first attempt and 2 seconds after the second, and no
  wait after the third. When the third attempt fails it returns None and raises nothing.
\<close>

theorem extractor_three_attempts:
  "download_article_with_retry w url 3 st =
     (case article_fetch w url 0 of
        Inr a \<Rightarrow> (Some a, st\<lparr>trace := trace st @ [ArticleDownload url]\<rparr>)
      | Inl e0 \<Rightarrow>
          (case article_fetch w url 1 of
             Inr a \<Rightarrow>
               (Some a, st\<lparr>trace := trace st @
                  [ArticleDownload url, Sleep 1, ArticleDownload url]\<rparr>)
           | Inl e1 \<Rightarrow>
               (case article_fetch w url 2 of
                  Inr a \<Rightarrow>
                    (Some a, st\<lparr>trace := trace st @
                       [ArticleDownload url, Sleep 1, ArticleDownload url, Sleep 2,
                        ArticleDownload url]\<rparr>)
                | Inl e2 \<Rightarrow>
                    (None, st\<lparr>trace := trace st @
                       [ArticleDownload url, Sleep 1, ArticleDownload url, Sleep 2,
                        ArticleDownload url]\<rparr>))))"
  by (simp add: download_article_with_retry_def upt_three emit_def Let_def split: sum.splits)

theorem extractor_three_attempts_witness:
  "download_article_with_retry demo_world ''u2'' 3 initial_state =
     (Some (demo_article ''B/2''),
      initial_state\<lparr>trace := [ArticleDownload ''u2'', Sleep 1, ArticleDownload ''u2'']\<rparr>)"
  using extractor_three_attempts [of demo_world "''u2''" initial_state]
  by (simp add: demo_world_def demo_fetch_def initial_state_def)

text \<open>
  C3 as stated fails: when every attempt fails, the waits are 1 and 2 seconds, not
  0, 2 and 4.
\<close>

theorem extractor_delays_counterexample:
  "sleeps (trace (snd (download_article_with_retry demo_world ''u3'' 3 initial_state))) = [1, 2]
   \<and> sleeps (trace (snd (download_article_with_retry demo_world ''u3'' 3 initial_state)))
       \<noteq> [0, 2, 4]"
  by (simp add: download_article_with_retry_def upt_three emit_def Let_def demo_world_def
      demo_fetch_def initial_state_def sleeps_def List.map_filter_simps)

subsection \<open>The session with retries\<close>

lemma mounts_session:
  "mounts create_session_with_retries = [(''https://'', retries), (''http://'', retries)]"
  by code_simp

lemma lower_prefixes: "lower ''http://'' = ''http://''" "lower ''https://'' = ''https://''"
  by code_simp+

lemma get_adapter_mounted:
  "prefix ''http://'' (lower url) \<or> prefix ''https://'' (lower url) \<Longrightarrow>
   get_adapter create_session_with_retries url = Some retries"
  by (cases "prefix ''http://'' (lower url)"; cases "prefix ''https://'' (lower url)")
     (simp_all add: get_adapter_def mounts_session lower_prefixes)

lemma get_adapter_unmounted:
  "\<not> prefix ''http://'' (lower url) \<Longrightarrow> \<not> prefix ''https://'' (lower url) \<Longrightarrow>
   get_adapter create_session_with_retries url = None"
  by (simp add: get_adapter_def mounts_session lower_prefixes)

lemma trace_sleep_backoff:
  "sleep_backoff r h st = st\<lparr>trace := trace st @ sleep_events (backoff_time r h)\<rparr>"
  by (simp add: sleep_backoff_def sleep_events_def emit_def Let_def)

lemma retryable_is_retry:
  "is_retry r n (status_code resp) False \<longleftrightarrow> retryable r (Response resp ra)"
  by (auto simp: is_retry_def retryable_def)




lemma sleeps_append: "sleeps (xs @ ys) = sleeps xs @ sleeps ys"
  by (simp add: sleeps_def List.map_filter_def)




lemma backoff_values:
  "backoff_time retries (Suc 0) = 0"
  "backoff_time retries 2 = 2"
  "backoff_time retries 3 = 4"
  "backoff_time retries 4 = 8"
  "backoff_time retries 5 = 16"
  by (simp_all add: backoff_time_def retries_def)







lemma feed_url_lower: "prefix ''https://'' (lower feed_url)"
  by code_simp



subsection \<open>The feed fetch and the feed items\<close>

lemma send_raises_request_exception:
  "fst (send r w url h n st) = Inl e \<Longrightarrow> is_RequestException e"
proof (induction n arbitrary: h st)
  case 0
  then show ?case
    by (cases "feed_reply w url h") (auto simp: Let_def split: if_splits)
next
  case (Suc n)
  show ?case
  proof (cases "feed_reply w url h")
    case ConnectionFailed
    with Suc.prems Suc.IH [of "Suc h" "sleep_backoff r (Suc h) (emit (FeedGet url) st)"]
    show ?thesis by (simp add: Let_def)
  next
    case (Response resp ra)
    show ?thesis
    proof (cases "is_retry r (Suc n) (status_code resp) (ra \<noteq> NoHeader)")
      case False
      with Response Suc.prems show ?thesis by (simp add: Let_def)
    next
      case True
      show ?thesis
      proof (cases "sleep_retry r (Suc h) ra (emit (FeedGet url) st)")
        case (Inl e')
        then have "e' = InvalidHeader"
          by (cases ra) (auto simp: sleep_retry_def split: if_splits)
        with Inl True Response Suc.prems show ?thesis by (auto simp: Let_def)
      next
        case (Inr st2)
        with True Response Suc.prems Suc.IH [of "Suc h" st2] show ?thesis
          by (simp add: Let_def)
      qed
    qed
  qed
qed

lemma sleep_backoff_state:
  "\<exists>tr. sleep_backoff r h st = st\<lparr>trace := trace st @ tr\<rparr> \<and> list_all feed_event tr"
proof -
  have "list_all feed_event (sleep_events (backoff_time r h))"
    by (simp add: sleep_events_def)
  with trace_sleep_backoff [of r h st] show ?thesis by blast
qed

lemma sleep_retry_state:
  "sleep_retry r h ra st = Inr st2 \<Longrightarrow>
   \<exists>tr. st2 = st\<lparr>trace := trace st @ tr\<rparr> \<and> list_all feed_event tr"
proof (cases ra)
  case NoHeader
  assume "sleep_retry r h ra st = Inr st2"
  with NoHeader sleep_backoff_state [of r h st] show ?thesis
    by (simp add: sleep_retry_def)
next
  case (Seconds s)
  assume a: "sleep_retry r h ra st = Inr st2"
  show ?thesis
  proof (cases "s = 0")
    case True
    with a Seconds sleep_backoff_state [of r h st] show ?thesis
      by (simp add: sleep_retry_def)
  next
    case False
    with a Seconds have "st2 = st\<lparr>trace := trace st @ [Sleep s]\<rparr>"
      by (simp add: sleep_retry_def emit_def)
    moreover have "list_all feed_event [Sleep s]" by simp
    ultimately show ?thesis by blast
  qed
next
  case Unparsable
  assume "sleep_retry r h ra st = Inr st2"
  with Unparsable show ?thesis by (simp add: sleep_retry_def)
qed

lemma trace_append_twice:
  "st\<lparr>trace := trace st @ a\<rparr>\<lparr>trace := trace (st\<lparr>trace := trace st @ a\<rparr>) @ b\<rparr> =
   st\<lparr>trace := trace st @ (a @ b)\<rparr>"
  by simp

lemma send_state:
  "\<exists>tr. snd (send r w url h n st) = st\<lparr>trace := trace st @ tr\<rparr> \<and> list_all feed_event tr"
proof (induction n arbitrary: h st)
  case 0
  have "snd (send r w url h 0 st) = st\<lparr>trace := trace st @ [FeedGet url]\<rparr>"
    by (cases "feed_reply w url h") (simp_all add: Let_def emit_def)
  moreover have "list_all feed_event [FeedGet url]" by simp
  ultimately show ?case by blast
next
  case (Suc n)
  let ?st1 = "emit (FeedGet url) st"
  have one: "?st1 = st\<lparr>trace := trace st @ [FeedGet url]\<rparr>" "list_all feed_event [FeedGet url]"
    by (simp_all add: emit_def)
  have via: "\<exists>tr. snd (send r w url (Suc h) n st2) = st\<lparr>trace := trace st @ tr\<rparr>
      \<and> list_all feed_event tr"
    if "st2 = ?st1\<lparr>trace := trace ?st1 @ tr2\<rparr>" "list_all feed_event tr2" for st2 tr2
  proof -
    from Suc.IH [of "Suc h" st2] obtain tr where tr:
      "snd (send r w url (Suc h) n st2) = st2\<lparr>trace := trace st2 @ tr\<rparr>" "list_all feed_event tr"
      by blast
    from tr(1) that(1) have "snd (send r w url (Suc h) n st2) =
        st\<lparr>trace := trace st @ ([FeedGet url] @ tr2 @ tr)\<rparr>"
      by (simp add: emit_def)
    moreover from tr(2) that(2) have "list_all feed_event ([FeedGet url] @ tr2 @ tr)"
      by simp
    ultimately show ?thesis by blast
  qed
  show ?case
  proof (cases "feed_reply w url h")
    case ConnectionFailed
    from sleep_backoff_state [of r "Suc h" ?st1] obtain tr2 where
      "sleep_backoff r (Suc h) ?st1 = ?st1\<lparr>trace := trace ?st1 @ tr2\<rparr>" "list_all feed_event tr2"
      by blast
    from via [OF this] ConnectionFailed show ?thesis
      by (simp add: Let_def)
  next
    case (Response resp ra)
    show ?thesis
    proof (cases "is_retry r (Suc n) (status_code resp) (ra \<noteq> NoHeader)")
      case False
      with Response one show ?thesis
        by (auto simp: Let_def)
    next
      case True
      show ?thesis
      proof (cases "sleep_retry r (Suc h) ra ?st1")
        case (Inl e)
        with True Response one show ?thesis
          by (auto simp: Let_def)
      next
        case (Inr st2)
        from sleep_retry_state [OF Inr] obtain tr2 where
          "st2 = ?st1\<lparr>trace := trace ?st1 @ tr2\<rparr>" "list_all feed_event tr2"
          by blast
        from via [OF this] Inr True Response show ?thesis
          by (simp add: Let_def)
      qed
    qed
  qed
qed

lemma get_feed_raises_request_exception:
  "fst (get_feed s w url st) = Inl e \<Longrightarrow> is_RequestException e"
proof (cases "get_adapter s url")
  case None
  assume "fst (get_feed s w url st) = Inl e"
  with None show ?thesis
    by (simp add: get_feed_def session_get_def)
next
  case (Some r)
  assume a: "fst (get_feed s w url st) = Inl e"
  obtain res st1 where s: "send r w url 0 (total r) st = (res, st1)"
    by (cases "send r w url 0 (total r) st")
  show ?thesis
  proof (cases res)
    case (Inl e')
    with a s Some have "e' = e"
      by (simp add: get_feed_def session_get_def)
    with Inl s send_raises_request_exception [of r w url 0 "total r" st e] show ?thesis
      by simp
  next
    case (Inr resp)
    with a s Some show ?thesis
      by (auto simp: get_feed_def session_get_def raise_for_status_def split: if_splits)
  qed
qed

lemma get_feed_state:
  "\<exists>tr. snd (get_feed s w url st) = st\<lparr>trace := trace st @ tr\<rparr> \<and> list_all feed_event tr"
proof (cases "get_adapter s url")
  case None
  then have "snd (get_feed s w url st) = st\<lparr>trace := trace st @ []\<rparr>"
    by (simp add: get_feed_def session_get_def)
  moreover have "list_all feed_event []" by simp
  ultimately show ?thesis by blast
next
  case (Some r)
  then have "snd (get_feed s w url st) = snd (send r w url 0 (total r) st)"
    by (simp add: get_feed_def session_get_def split: prod.splits sum.splits)
  then show ?thesis
    using send_state [of r w url 0 "total r" st] by simp
qed

lemma get_feed_200:
  "prefix ''https://'' (lower url) \<Longrightarrow>
   feed_reply w url 0 = Response \<lparr>status_code = 200, content = c\<rparr> ra \<Longrightarrow>
   get_feed create_session_with_retries w url st =
     (Inr \<lparr>status_code = 200, content = c\<rparr>, emit (FeedGet url) st)"
  by (simp add: get_feed_def session_get_def get_adapter_mounted retries_def Let_def
      raise_for_status_def is_retry_def eval_nat_numeral)

lemma get_feed_flaky6:
  "fst (get_feed create_session_with_retries (flaky_feed 6) feed_url initial_state) = Inl RetryError"
  by code_simp

text \<open>
  C7. If the feed fetch fails (the request of the session or \<^verbatim>\<open>raise_for_status\<close> raises,
  after the retries are used up), \<^verbatim>\<open>create_epub\<close> returns False, and the state differs
  from the one it started in only by the requests for the feed and the waits between them:
  no archive is written, and nothing is done for any item.
\<close>

theorem feed_failure_fails_run:
  "fst (get_feed create_session_with_retries w rss_feed st) = Inl e \<Longrightarrow>
   (\<exists>tr. create_epub w rss_feed output_filename st = (Returned False, st\<lparr>trace := trace st @ tr\<rparr>)
         \<and> list_all feed_event tr)"
proof -
  assume f: "fst (get_feed create_session_with_retries w rss_feed st) = Inl e"
  then have "is_RequestException e"
    by (rule get_feed_raises_request_exception)
  with f have "create_epub w rss_feed output_filename st =
      (Returned False, snd (get_feed create_session_with_retries w rss_feed st))"
    by (cases "get_feed create_session_with_retries w rss_feed st") (simp add: create_epub_def)
  then show ?thesis
    using get_feed_state [of create_session_with_retries w rss_feed st] by auto
qed

theorem feed_failure_fails_run_witness:
  "fst (get_feed create_session_with_retries (flaky_feed 6) feed_url initial_state) = Inl RetryError
   \<and> fst (create_epub (flaky_feed 6) feed_url ''el_pais.epub'' initial_state) = Returned False
   \<and> archive (snd (create_epub (flaky_feed 6) feed_url ''el_pais.epub'' initial_state)) = None
   \<and> filter is_ArticleDownload
        (trace (snd (create_epub (flaky_feed 6) feed_url ''el_pais.epub'' initial_state))) = []"
proof -
  from feed_failure_fails_run [OF get_feed_flaky6, of "''el_pais.epub''"]
  obtain tr where tr:
    "create_epub (flaky_feed 6) feed_url ''el_pais.epub'' initial_state =
       (Returned False, initial_state\<lparr>trace := trace initial_state @ tr\<rparr>)"
    "list_all feed_event tr"
    by blast
  have "filter is_ArticleDownload tr = []"
    using tr(2) by (induction tr) (auto elim: feed_event.elims)
  with tr(1) get_feed_flaky6 show ?thesis
    by (simp add: initial_state_def)
qed

lemma item_pairs_raises:
  "i \<in> set its \<Longrightarrow> link i = None \<or> category i = None \<Longrightarrow> item_pairs its = Inl AttributeError"
proof (induction its)
  case Nil
  then show ?case by simp
next
  case (Cons x xs)
  show ?case
  proof (cases "link x = None \<or> category x = None")
    case True
    then show ?thesis
      by (auto split: option.splits)
  next
    case False
    with Cons.prems have "i \<in> set xs" by auto
    with Cons have "item_pairs xs = Inl AttributeError" by simp
    with False show ?thesis by auto
  qed
qed

lemma item_pairs_returns:
  "\<forall>i\<in>set its. link i \<noteq> None \<and> category i \<noteq> None \<Longrightarrow>
   item_pairs its = Inr (map (\<lambda>i. (the (link i), the (category i))) its)"
  by (induction its) auto

text \<open>
  C10. If the feed is fetched and the document holds an item without a link element or
  without a category element, \<^verbatim>\<open>create_epub\<close> does not return: an AttributeError
  escapes it, before any item is processed and with no archive written.
\<close>

theorem malformed_item_raises:
  "get_feed create_session_with_retries w rss_feed st = (Inr r, st1) \<Longrightarrow>
   i \<in> set (parse_items w (content r)) \<Longrightarrow>
   link i = None \<or> category i = None \<Longrightarrow>
   create_epub w rss_feed output_filename st = (Raised AttributeError, st1)
   \<and> archive st1 = archive st \<and> files st1 = files st
   \<and> filter is_ArticleDownload (trace st1) = filter is_ArticleDownload (trace st)"
proof -
  assume g: "get_feed create_session_with_retries w rss_feed st = (Inr r, st1)"
    and i: "i \<in> set (parse_items w (content r))" "link i = None \<or> category i = None"
  from i have "item_pairs (parse_items w (content r)) = Inl AttributeError"
    by (rule item_pairs_raises)
  with g have c: "create_epub w rss_feed output_filename st = (Raised AttributeError, st1)"
    by (simp add: create_epub_def)
  from get_feed_state [of create_session_with_retries w rss_feed st] g
  obtain tr where tr: "st1 = st\<lparr>trace := trace st @ tr\<rparr>" "list_all feed_event tr"
    by auto
  have "filter is_ArticleDownload tr = []"
    using tr(2) by (induction tr) (auto elim: feed_event.elims)
  with c tr(1) show ?thesis by simp
qed


theorem malformed_item_raises_witness:
  "fst (create_epub (demo_world\<lparr>parse_items := (\<lambda>c. [\<lparr>link = Some ''u1'', category = None\<rparr>])\<rparr>)
          feed_url ''el_pais.epub'' initial_state) = Raised AttributeError
   \<and> archive (snd (create_epub
         (demo_world\<lparr>parse_items := (\<lambda>c. [\<lparr>link = Some ''u1'', category = None\<rparr>])\<rparr>)
          feed_url ''el_pais.epub'' initial_state)) = None"
proof -
  let ?w = "demo_world\<lparr>parse_items := (\<lambda>c. [\<lparr>link = Some ''u1'', category = None\<rparr>])\<rparr>"
  have i: "\<lparr>link = Some ''u1'', category = None\<rparr>
      \<in> set (parse_items ?w (content \<lparr>status_code = 200, content = ''<rss/>''\<rparr>))"
    by simp
  have n: "link \<lparr>link = Some ''u1'', category = None\<rparr> = None
      \<or> category \<lparr>link = Some ''u1'', category = None\<rparr> = None"
    by simp
  have g: "get_feed create_session_with_retries ?w feed_url initial_state =
      (Inr \<lparr>status_code = 200, content = ''<rss/>''\<rparr>, emit (FeedGet feed_url) initial_state)"
    by (rule get_feed_200 [OF feed_url_lower]) (simp add: demo_world_def)
  from malformed_item_raises [OF g i n, of "''el_pais.epub''"]
  show ?thesis
    by (simp add: initial_state_def)
qed

subsection \<open>The content normalizer\<close>

lemma split_nonempty: "split sep s \<noteq> []"
  by (induction sep s rule: split.induct) (subst split.simps, simp split: list.splits)

lemma join_Cons_Cons: "join sep ((c # r) # rs) = c # join sep (r # rs)"
  by (cases rs) simp_all

lemma join_Nil_Cons: "rs \<noteq> [] \<Longrightarrow> join sep ([] # rs) = sep @ join sep rs"
  by (cases rs) simp_all

lemma join_split: "join sep (split sep s) = s"
proof (induction sep s rule: split.induct)
  case (1 sep s)
  show ?case
  proof (cases "sep = [] \<or> s = []")
    case True
    then show ?thesis
      by (subst split.simps) auto
  next
    case False
    show ?thesis
    proof (cases "prefix sep s")
      case True
      with False 1(1) have "join sep (split sep (drop (length sep) s)) = drop (length sep) s"
        by simp
      moreover from True have "sep @ drop (length sep) s = s"
        by (auto simp: prefix_def)
      ultimately show ?thesis
        using False True
        by (subst split.simps) (simp add: join_Nil_Cons split_nonempty)
    next
      case np: False
      with False 1(2) have ih: "join sep (split sep (tl s)) = tl s"
        by simp
      obtain r rs where r: "split sep (tl s) = r # rs"
        using split_nonempty [of sep "tl s"] by (cases "split sep (tl s)") auto
      from False have "hd s # tl s = s" by simp
      with ih r show ?thesis
        using False np
        by (subst split.simps) (simp add: join_Cons_Cons)
    qed
  qed
qed

lemma first_segment_prefix: "sep \<noteq> [] \<Longrightarrow> split sep s = r # rs \<Longrightarrow> prefix r s"
proof (induction sep s arbitrary: r rs rule: split.induct)
  case (1 sep s)
  show ?case
  proof (cases "s = []")
    case True
    with 1(3,4) show ?thesis
      by (subst (asm) split.simps) simp
  next
    case False
    show ?thesis
    proof (cases "prefix sep s")
      case True
      with False 1(3,4) have "r = []"
        by (subst (asm) split.simps) simp
      then show ?thesis by simp
    next
      case np: False
      obtain r' rs' where r': "split sep (tl s) = r' # rs'"
        using split_nonempty [of sep "tl s"] by (cases "split sep (tl s)") auto
      with 1(2) [OF 1(3) False np 1(3)] have p: "prefix r' (tl s)" by simp
      from 1(3,4) False np r' have "r = hd s # r'"
        by (subst (asm) split.simps) simp
      with p False show ?thesis
        by (cases s) simp_all
    qed
  qed
qed

lemma segments_hold_no_separator:
  "sep \<noteq> [] \<Longrightarrow> seg \<in> set (split sep s) \<Longrightarrow> \<not> sublist sep seg"
proof (induction sep s arbitrary: seg rule: split.induct)
  case (1 sep s)
  show ?case
  proof (cases "s = []")
    case True
    with 1(3,4) have "seg = []"
      by (subst (asm) split.simps) simp
    with 1(3) show ?thesis by simp
  next
    case False
    show ?thesis
    proof (cases "prefix sep s")
      case True
      with False 1(3,4) have "seg = [] \<or> seg \<in> set (split sep (drop (length sep) s))"
        by (subst (asm) split.simps) simp
      then show ?thesis
      proof
        assume "seg = []" with 1(3) show ?thesis by simp
      next
        assume "seg \<in> set (split sep (drop (length sep) s))"
        with 1(1) [OF 1(3) False True 1(3)] show ?thesis by simp
      qed
    next
      case np: False
      obtain r rs where r: "split sep (tl s) = r # rs"
        using split_nonempty [of sep "tl s"] by (cases "split sep (tl s)") auto
      from 1(3,4) False np r have "seg = hd s # r \<or> seg \<in> set rs"
        by (subst (asm) split.simps) simp
      then show ?thesis
      proof
        assume "seg \<in> set rs"
        with r 1(2) [OF 1(3) False np 1(3), of seg] show ?thesis by simp
      next
        assume seg: "seg = hd s # r"
        have nr: "\<not> sublist sep r"
          using r 1(2) [OF 1(3) False np 1(3), of r] by simp
        have "\<not> prefix sep (hd s # r)"
        proof
          assume "prefix sep (hd s # r)"
          moreover from first_segment_prefix [OF 1(3) r] False have "prefix (hd s # r) s"
            by (cases s) simp_all
          ultimately have "prefix sep s" by (rule prefix_order.trans)
          with np show False by simp
        qed
        with nr seg show ?thesis
          by (simp add: sublist_Cons_right)
      qed
    qed
  qed
qed

lemma fallback_paragraphs:
  "map (\<lambda>p. wrap_p (strip p)) (filter (\<lambda>p. strip p \<noteq> []) xs) =
   map wrap_p (filter (\<lambda>seg. seg \<noteq> []) (map strip xs))"
  by (induction xs) simp_all

lemma strip_trimmed: "strip s \<noteq> [] \<Longrightarrow> \<not> isspace (hd (strip s)) \<and> \<not> isspace (last (strip s))"
proof -
  assume ne: "strip s \<noteq> []"
  let ?a = "dropWhile isspace s"
  let ?b = "dropWhile isspace (rev ?a)"
  from ne have b: "?b \<noteq> []" by (simp add: strip_def)
  have a: "?a \<noteq> []"
  proof
    assume "?a = []"
    then have "?b = dropWhile isspace (rev [])" by (simp only:)
    with b show False by simp
  qed
  from b have l: "\<not> isspace (hd ?b)" by (rule hd_dropWhile)
  from a have h: "\<not> isspace (hd ?a)" by (rule hd_dropWhile)
  have "last (strip s) = hd ?b"
    using b by (simp add: strip_def last_rev)
  moreover have "hd (strip s) = hd ?a"
  proof -
    from b obtain ys where ys: "rev ?a = takeWhile isspace (rev ?a) @ ?b" by simp
    then have "?a = rev ?b @ rev (takeWhile isspace (rev ?a))"
      by (metis rev_append rev_rev_ident)
    with b show ?thesis
      by (metis hd_append2 rev_is_Nil_conv strip_def)
  qed
  ultimately show ?thesis using l h by simp
qed

text \<open>
  C6. For an article whose structured body HTML is absent (None or empty), the normalizer's
  output is the plain-text body split on blank-line boundaries, each segment trimmed, the
  empty ones discarded, each remaining one wrapped as a paragraph element, joined by
  newlines, in the order of the text. The segments are those between consecutive blank-line
  separators: joined by the separator they give the text back, and none holds a separator.
  The paragraphs kept are not empty and neither start nor end with white space.
\<close>

theorem plain_text_fallback:
  "\<not> truthy (article_html a) \<Longrightarrow>
   article_content w a = normalize_plain_text (article_text a)
   \<and> join blank_line (split blank_line (article_text a)) = article_text a
   \<and> (\<forall>seg\<in>set (split blank_line (article_text a)). \<not> sublist blank_line seg)
   \<and> (\<forall>p\<in>set (filter (\<lambda>seg. seg \<noteq> []) (map strip (split blank_line (article_text a)))).
         p \<noteq> [] \<and> \<not> isspace (hd p) \<and> \<not> isspace (last p))"
proof -
  assume "\<not> truthy (article_html a)"
  then have "article_content w a = normalize_plain_text (article_text a)"
    by (simp add: article_content_def normalize_plain_text_def fallback_paragraphs
        blank_line_def nl_def)
  moreover have "\<forall>seg\<in>set (split blank_line (article_text a)). \<not> sublist blank_line seg"
    using segments_hold_no_separator [of blank_line _ "article_text a"]
    by (auto simp: blank_line_def)
  moreover have
    "\<forall>p\<in>set (filter (\<lambda>seg. seg \<noteq> []) (map strip (split blank_line (article_text a)))).
       p \<noteq> [] \<and> \<not> isspace (hd p) \<and> \<not> isspace (last p)"
    using strip_trimmed by auto
  ultimately show ?thesis
    by (simp add: join_split)
qed

lemma demo_text_normalized:
  "normalize_plain_text (article_text (demo_article t)) =
     ''<p>uno</p>'' @ nl @ ''<p>dos</p>'' @ nl @ ''<p>tres</p>''"
  by code_simp

theorem plain_text_fallback_witness:
  "\<not> truthy (article_html (demo_article ''A 1''))
   \<and> article_content demo_world (demo_article ''A 1'') =
       ''<p>uno</p>'' @ nl @ ''<p>dos</p>'' @ nl @ ''<p>tres</p>''"
proof -
  have h: "\<not> truthy (article_html (demo_article ''A 1''))"
    by (simp add: demo_article_def truthy_def)
  from plain_text_fallback [OF h, of demo_world] demo_text_normalized [of "''A 1''"] h
  show ?thesis by simp
qed

subsection \<open>The batch loop\<close>

lemma write_calls_emit:
  "\<not> is_WriteEpub ev \<Longrightarrow> write_calls (emit ev st) = write_calls st"
  by (simp add: write_calls_def emit_def)

lemma write_calls_trace:
  "list_all feed_event tr \<Longrightarrow> write_calls (st\<lparr>trace := trace st @ tr\<rparr>) = write_calls st"
proof -
  assume "list_all feed_event tr"
  then have "filter is_WriteEpub tr = []"
    by (induction tr) (auto elim: feed_event.elims)
  then show ?thesis by (simp add: write_calls_def)
qed

lemma attempts_result:
  "fst (attempts w url m ks st) = fst (attempts w url m ks st')"
proof (induction ks arbitrary: st st')
  case Nil
  show ?case by simp
next
  case (Cons k ks)
  show ?case
  proof (cases "article_fetch w url k")
    case (Inr a)
    then show ?thesis by (simp add: Let_def)
  next
    case (Inl e)
    show ?thesis
    proof (cases "int k = int m - 1")
      case True
      with Inl show ?thesis by (simp add: Let_def)
    next
      case False
      with Inl Cons.IH [of "emit (Sleep (2 ^ k)) (emit (ArticleDownload url) st)"
          "emit (Sleep (2 ^ k)) (emit (ArticleDownload url) st')"]
      show ?thesis by (simp add: Let_def)
    qed
  qed
qed

lemma attempts_state:
  "rng (snd (attempts w url m ks st)) = rng st
   \<and> files (snd (attempts w url m ks st)) = files st
   \<and> archive (snd (attempts w url m ks st)) = archive st
   \<and> write_calls (snd (attempts w url m ks st)) = write_calls st"
proof (induction ks arbitrary: st)
  case Nil
  show ?case by simp
next
  case (Cons k ks)
  show ?case
  proof (cases "article_fetch w url k")
    case (Inr a)
    then show ?thesis by (simp add: Let_def emit_def write_calls_def)
  next
    case (Inl e)
    show ?thesis
    proof (cases "int k = int m - 1")
      case True
      with Inl show ?thesis by (simp add: Let_def emit_def write_calls_def)
    next
      case False
      with Inl Cons.IH [of "emit (Sleep (2 ^ k)) (emit (ArticleDownload url) st)"]
      show ?thesis by (simp add: Let_def emit_def write_calls_def)
    qed
  qed
qed

lemma download_article:
  "\<exists>st1. download_article_with_retry w url 3 st = (article_of w url, st1)
     \<and> rng st1 = rng st \<and> files st1 = files st \<and> archive st1 = archive st
     \<and> write_calls st1 = write_calls st"
proof -
  have "fst (download_article_with_retry w url 3 st) = article_of w url"
    unfolding article_of_def download_article_with_retry_def by (rule attempts_result)
  moreover have "rng (snd (download_article_with_retry w url 3 st)) = rng st
    \<and> files (snd (download_article_with_retry w url 3 st)) = files st
    \<and> archive (snd (download_article_with_retry w url 3 st)) = archive st
    \<and> write_calls (snd (download_article_with_retry w url 3 st)) = write_calls st"
    unfolding download_article_with_retry_def by (rule attempts_state)
  ultimately show ?thesis
    by (cases "download_article_with_retry w url 3 st") auto
qed

lemma build_chapter_captured:
  assumes "article_of w (fst it) = Some a" and "captured w a"
  shows "\<exists>st'. build_chapter w (snd it) a st =
            (Inr (image_of w it (random_name w (rng st) @ ''.jpeg''),
                  chapter_of w it (random_name w (rng st) @ ''.jpeg'')), st')
          \<and> rng st' = rng st + 10 \<and> archive st' = archive st
          \<and> write_calls st' = write_calls st"
proof -
  from assms(2) obtain resp where resp: "image_reply w (top_img a) = Inr resp"
    "raise_for_status resp = Inr ()" "stream_error w (top_img a) = None"
    by (auto simp: captured_def image_served_def split: sum.splits)
  with assms(1) show ?thesis
    by (simp add: build_chapter_def download_image_def Let_def emit_def image_of_def
        chapter_of_def write_calls_def)
qed

lemma build_chapter_not_served:
  assumes "\<not> image_served w a"
  shows "\<exists>e st'. build_chapter w cat a st = (Inl e, st')
          \<and> rng st' = rng st \<and> archive st' = archive st
          \<and> write_calls st' = write_calls st"
proof (cases "image_reply w (top_img a)")
  case (Inl e)
  then show ?thesis
    by (cases "is_RequestException e")
       (simp_all add: build_chapter_def download_image_def Let_def emit_def write_calls_def)
next
  case (Inr resp)
  with assms have "raise_for_status resp = Inl HTTPError"
    by (auto simp: image_served_def raise_for_status_def split: if_splits)
  with Inr show ?thesis
    by (simp add: build_chapter_def download_image_def Let_def emit_def write_calls_def)
qed

lemma build_chapter_interrupted:
  assumes "image_served w a" and "stream_error w (top_img a) = Some e"
  shows "\<exists>e' st'. build_chapter w cat a st = (Inl e', st')
          \<and> rng st' = rng st + 10 \<and> archive st' = archive st
          \<and> write_calls st' = write_calls st"
proof -
  from assms(1) obtain resp where resp: "image_reply w (top_img a) = Inr resp"
    "raise_for_status resp = Inr ()"
    by (auto simp: image_served_def split: sum.splits)
  with assms(2) show ?thesis
    by (cases "is_RequestException e")
       (simp_all add: build_chapter_def download_image_def Let_def emit_def write_calls_def)
qed

lemma length_paths_of: "length (paths_of w n its) = length (filter (item_ok w) its)"
  by (induction its arbitrary: n) simp_all

lemma item_ok_draws_name: "item_ok w it \<Longrightarrow> draws_name w it"
  by (auto simp: item_ok_def draws_name_def captured_def split: option.splits)


text \<open>One step of the loop, by what becomes of the item.\<close>

lemma step_skipped:
  assumes "\<not> dateless w it" and "\<not> draws_name w it"
  shows "\<exists>st1. process_articles w (it # its) book chs st = process_articles w its book chs st1
           \<and> rng st1 = rng st \<and> archive st1 = archive st \<and> write_calls st1 = write_calls st"
proof -
  obtain url cat where it: "it = (url, cat)" by (cases it)
  from download_article [of w url st] obtain st1 where
    st1: "download_article_with_retry w url 3 st = (article_of w url, st1)"
      "rng st1 = rng st" "archive st1 = archive st" "write_calls st1 = write_calls st"
    by blast
  show ?thesis
  proof (cases "article_of w url")
    case None
    with st1 show ?thesis by (auto simp: it)
  next
    case (Some a)
    with assms(1) obtain d where d: "publish_date a = Some d"
      by (auto simp: dateless_def it)
    show ?thesis
    proof (cases "date_of d = today w")
      case False
      with Some d st1 show ?thesis by (auto simp: it)
    next
      case True
      with Some d assms(2) have "\<not> image_served w a"
        by (simp add: draws_name_def it)
      from build_chapter_not_served [OF this, of cat st1] obtain e st2 where
        "build_chapter w cat a st1 = (Inl e, st2)" "rng st2 = rng st1"
        "archive st2 = archive st1" "write_calls st2 = write_calls st1"
        by blast
      with Some d True st1 show ?thesis by (auto simp: it)
    qed
  qed
qed

lemma step_interrupted:
  assumes "draws_name w it" and "\<not> item_ok w it"
  shows "\<exists>st1. process_articles w (it # its) book chs st = process_articles w its book chs st1
           \<and> rng st1 = rng st + 10 \<and> archive st1 = archive st
           \<and> write_calls st1 = write_calls st"
proof -
  obtain url cat where it: "it = (url, cat)" by (cases it)
  from download_article [of w url st] obtain st1 where
    st1: "download_article_with_retry w url 3 st = (article_of w url, st1)"
      "rng st1 = rng st" "archive st1 = archive st" "write_calls st1 = write_calls st"
    by blast
  from assms(1) obtain a d where a: "article_of w url = Some a" "publish_date a = Some d"
    "date_of d = today w" "image_served w a"
    by (auto simp: draws_name_def it split: option.splits)
  with assms(2) obtain e where "stream_error w (top_img a) = Some e"
    by (auto simp: item_ok_def captured_def it)
  from build_chapter_interrupted [OF a(4) this, of cat st1] obtain e' st2 where
    "build_chapter w cat a st1 = (Inl e', st2)" "rng st2 = rng st1 + 10"
    "archive st2 = archive st1" "write_calls st2 = write_calls st1"
    by blast
  with a st1 show ?thesis by (auto simp: it)
qed

lemma step_chapter:
  assumes "item_ok w it"
  shows "\<exists>st1. process_articles w (it # its) book chs st =
             process_articles w its
               (book\<lparr>items := items book @
                  [Item (image_of w it (random_name w (rng st) @ ''.jpeg'')),
                   Html (chapter_of w it (random_name w (rng st) @ ''.jpeg''))]\<rparr>)
               (chs @ [chapter_of w it (random_name w (rng st) @ ''.jpeg'')]) st1
           \<and> rng st1 = rng st + 10 \<and> archive st1 = archive st
           \<and> write_calls st1 = write_calls st"
proof -
  obtain url cat where it: "it = (url, cat)" by (cases it)
  from download_article [of w url st] obtain st1 where
    st1: "download_article_with_retry w url 3 st = (article_of w url, st1)"
      "rng st1 = rng st" "archive st1 = archive st" "write_calls st1 = write_calls st"
    by blast
  from assms obtain a d where a: "article_of w url = Some a" "publish_date a = Some d"
    "date_of d = today w" "captured w a"
    by (auto simp: item_ok_def it split: option.splits)
  from a(1) have "article_of w (fst it) = Some a" by (simp add: it)
  from build_chapter_captured [OF this a(4), of st1] st1 obtain st2 where
    "build_chapter w cat a st1 =
       (Inr (image_of w it (random_name w (rng st) @ ''.jpeg''),
             chapter_of w it (random_name w (rng st) @ ''.jpeg'')), st2)"
    "rng st2 = rng st + 10" "archive st2 = archive st" "write_calls st2 = write_calls st"
    by (auto simp: it)
  with a st1 show ?thesis by (auto simp: it)
qed

lemma process_articles_returns:
  assumes "\<forall>it\<in>set its. \<not> dateless w it"
  shows "\<exists>st'. process_articles w its book chs st =
           (Inr (book\<lparr>items := items book @
                    added_items w (filter (item_ok w) its) (paths_of w (rng st) its)\<rparr>,
                 chs @ chapters_of w (filter (item_ok w) its) (paths_of w (rng st) its)), st')
         \<and> archive st' = archive st \<and> write_calls st' = write_calls st"
  using assms
proof (induction its arbitrary: book chs st)
  case Nil
  show ?case
    by (simp add: added_items_def chapters_of_def)
next
  case (Cons it its)
  from Cons.prems have rest: "\<forall>it\<in>set its. \<not> dateless w it" and nd: "\<not> dateless w it"
    by simp_all
  show ?case
  proof (cases "item_ok w it")
    case True
    let ?p = "random_name w (rng st) @ ''.jpeg''"
    let ?book2 = "book\<lparr>items := items book @ [Item (image_of w it ?p), Html (chapter_of w it ?p)]\<rparr>"
    from step_chapter [OF True, of its book chs st] obtain st1 where st1:
      "process_articles w (it # its) book chs st =
         process_articles w its ?book2 (chs @ [chapter_of w it ?p]) st1"
      "rng st1 = rng st + 10" "archive st1 = archive st" "write_calls st1 = write_calls st"
      by blast
    from Cons.IH [OF rest, of ?book2 "chs @ [chapter_of w it ?p]" st1] obtain st' where st':
      "process_articles w its ?book2 (chs @ [chapter_of w it ?p]) st1 =
         (Inr (?book2\<lparr>items := items ?book2 @
                  added_items w (filter (item_ok w) its) (paths_of w (rng st1) its)\<rparr>,
               (chs @ [chapter_of w it ?p]) @
                 chapters_of w (filter (item_ok w) its) (paths_of w (rng st1) its)), st')"
      "archive st' = archive st1" "write_calls st' = write_calls st1"
      by blast
    show ?thesis
      using True st1(2,3,4) st'
      by (simp only: st1(1)) (simp add: added_items_def chapters_of_def)
  next
    case no: False
    show ?thesis
    proof (cases "draws_name w it")
      case True
      from step_interrupted [OF True no, of its book chs st] obtain st1 where st1:
        "process_articles w (it # its) book chs st = process_articles w its book chs st1"
        "rng st1 = rng st + 10" "archive st1 = archive st" "write_calls st1 = write_calls st"
        by blast
      from Cons.IH [OF rest, of book chs st1] no True st1(2,3,4) show ?thesis
        by (simp only: st1(1)) simp
    next
      case False
      from step_skipped [OF nd False, of its book chs st] obtain st1 where st1:
        "process_articles w (it # its) book chs st = process_articles w its book chs st1"
        "rng st1 = rng st" "archive st1 = archive st" "write_calls st1 = write_calls st"
        by blast
      from Cons.IH [OF rest, of book chs st1] no False st1(2,3,4) show ?thesis
        by (simp only: st1(1)) simp
    qed
  qed
qed

lemma process_articles_raises:
  assumes "\<exists>it\<in>set its. dateless w it"
  shows "\<exists>st'. process_articles w its book chs st = (Inl AttributeError, st')
           \<and> archive st' = archive st \<and> write_calls st' = write_calls st"
  using assms
proof (induction its arbitrary: book chs st)
  case Nil
  then show ?case by simp
next
  case (Cons it its)
  show ?case
  proof (cases "dateless w it")
    case True
    obtain url cat where it: "it = (url, cat)" by (cases it)
    from download_article [of w url st] obtain st1 where
      st1: "download_article_with_retry w url 3 st = (article_of w url, st1)"
        "archive st1 = archive st" "write_calls st1 = write_calls st"
      by blast
    from True obtain a where "article_of w url = Some a" "publish_date a = None"
      by (auto simp: dateless_def it split: option.splits)
    with st1 show ?thesis by (simp add: it)
  next
    case False
    with Cons.prems have rest: "\<exists>it\<in>set its. dateless w it" by simp
    have "\<exists>book2 chs2 st1. process_articles w (it # its) book chs st =
              process_articles w its book2 chs2 st1
            \<and> archive st1 = archive st \<and> write_calls st1 = write_calls st"
    proof (cases "item_ok w it")
      case True
      from step_chapter [OF True, of its book chs st] show ?thesis by blast
    next
      case no: False
      show ?thesis
      proof (cases "draws_name w it")
        case True
        from step_interrupted [OF True no, of its book chs st] show ?thesis by blast
      next
        case nn: False
        from step_skipped [OF False nn, of its book chs st] show ?thesis by blast
      qed
    qed
    then obtain book2 chs2 st1 where st1:
      "process_articles w (it # its) book chs st = process_articles w its book2 chs2 st1"
      "archive st1 = archive st" "write_calls st1 = write_calls st"
      by blast
    from Cons.IH [OF rest, of book2 chs2 st1] st1(2,3) show ?thesis
      by (simp only: st1(1))
  qed
qed

subsection \<open>The whole run\<close>

lemma get_feed_keeps:
  "get_feed s w url st = (res, st1) \<Longrightarrow>
   rng st1 = rng st \<and> files st1 = files st \<and> archive st1 = archive st
   \<and> write_calls st1 = write_calls st"
proof -
  assume a: "get_feed s w url st = (res, st1)"
  from get_feed_state [of s w url st] a obtain tr where
    "st1 = st\<lparr>trace := trace st @ tr\<rparr>" "list_all feed_event tr"
    by auto
  then show ?thesis
    by (simp add: write_calls_trace)
qed

lemma chapters_of_Nil_iff:
  "length paths = length its \<Longrightarrow> chapters_of w its paths = [] \<longleftrightarrow> its = []"
  by (cases its; cases paths) (simp_all add: chapters_of_def)

lemma length_chapters_of:
  "length paths = length its \<Longrightarrow> length (chapters_of w its paths) = length its"
  by (simp add: chapters_of_def)

lemma loop_of_run:
  assumes "get_feed create_session_with_retries w rss_feed st = (Inr r, st1)"
    and "item_pairs (parse_items w (content r)) = Inr pairs"
    and "\<forall>it\<in>set (sort_articles pairs). \<not> dateless w it"
  shows "\<exists>st2. process_articles w (sort_articles pairs) new_book [] st1 =
           (Inr (new_book\<lparr>items := added_items w (successful w pairs)
                     (paths_of w (rng st) (sort_articles pairs))\<rparr>,
                 chapters_of w (successful w pairs)
                     (paths_of w (rng st) (sort_articles pairs))), st2)
         \<and> archive st2 = archive st \<and> write_calls st2 = write_calls st"
proof -
  from get_feed_keeps [OF assms(1)] have k: "rng st1 = rng st" "archive st1 = archive st"
    "write_calls st1 = write_calls st"
    by simp_all
  from process_articles_returns [OF assms(3), of new_book "[]" st1] k show ?thesis
    by (auto simp: successful_def new_book_def)
qed

lemma run_without_chapters:
  assumes "get_feed create_session_with_retries w rss_feed st = (Inr r, st1)"
    and "item_pairs (parse_items w (content r)) = Inr pairs"
    and "\<forall>it\<in>set (sort_articles pairs). \<not> dateless w it"
    and "successful w pairs = []"
  shows "\<exists>st'. create_epub w rss_feed output_filename st = (Returned False, st')
           \<and> archive st' = archive st \<and> write_calls st' = write_calls st"
proof -
  from loop_of_run [OF assms(1-3)] assms(4) obtain st2 where
    "process_articles w (sort_articles pairs) new_book [] st1 =
       (Inr (new_book\<lparr>items := added_items w [] (paths_of w (rng st) (sort_articles pairs))\<rparr>,
             chapters_of w [] (paths_of w (rng st) (sort_articles pairs))), st2)"
    "archive st2 = archive st" "write_calls st2 = write_calls st"
    by auto
  with assms(1,2) show ?thesis
    by (simp add: create_epub_def chapters_of_def)
qed

lemma run_with_chapters:
  assumes "get_feed create_session_with_retries w rss_feed st = (Inr r, st1)"
    and "item_pairs (parse_items w (content r)) = Inr pairs"
    and "\<forall>it\<in>set (sort_articles pairs). \<not> dateless w it"
    and "successful w pairs \<noteq> []"
  shows "\<exists>st2. archive st2 = archive st \<and> write_calls st2 = write_calls st
           \<and> create_epub w rss_feed output_filename st =
               (case write_epub w output_filename (final_book w (sort_articles pairs) (rng st)) of
                  Written \<Rightarrow> (Returned True,
                     (emit (WriteEpub output_filename
                              (final_book w (sort_articles pairs) (rng st))) st2)
                       \<lparr>archive := Some (output_filename,
                                         final_book w (sort_articles pairs) (rng st))\<rparr>)
                | NotWritten \<Rightarrow> (Returned True,
                     emit (WriteEpub output_filename
                              (final_book w (sort_articles pairs) (rng st))) st2)
                | WriteRaised e \<Rightarrow> (Returned False,
                     emit (WriteEpub output_filename
                              (final_book w (sort_articles pairs) (rng st))) st2))"
proof -
  let ?paths = "paths_of w (rng st) (sort_articles pairs)"
  from loop_of_run [OF assms(1-3)] obtain st2 where st2:
    "process_articles w (sort_articles pairs) new_book [] st1 =
       (Inr (new_book\<lparr>items := added_items w (successful w pairs) ?paths\<rparr>,
             chapters_of w (successful w pairs) ?paths), st2)"
    "archive st2 = archive st" "write_calls st2 = write_calls st"
    by auto
  have "length ?paths = length (successful w pairs)"
    by (simp add: length_paths_of successful_def)
  with assms(4) have ne: "chapters_of w (successful w pairs) ?paths \<noteq> []"
    by (simp add: chapters_of_Nil_iff)
  have "create_epub w rss_feed output_filename st =
      (case write_epub w output_filename (final_book w (sort_articles pairs) (rng st)) of
         Written \<Rightarrow> (Returned True,
            (emit (WriteEpub output_filename (final_book w (sort_articles pairs) (rng st))) st2)
              \<lparr>archive := Some (output_filename, final_book w (sort_articles pairs) (rng st))\<rparr>)
       | NotWritten \<Rightarrow> (Returned True,
            emit (WriteEpub output_filename (final_book w (sort_articles pairs) (rng st))) st2)
       | WriteRaised e \<Rightarrow> (Returned False,
            emit (WriteEpub output_filename (final_book w (sort_articles pairs) (rng st))) st2))"
    using assms(1,2) st2(1) ne
    by (simp add: create_epub_def final_book_def successful_def Let_def
        split: write_result.splits)
  with st2(2,3) show ?thesis by blast
qed

lemma run_raises:
  assumes "get_feed create_session_with_retries w rss_feed st = (Inr r, st1)"
    and "item_pairs (parse_items w (content r)) = Inr pairs"
    and "\<exists>it\<in>set (sort_articles pairs). dateless w it"
  shows "\<exists>st'. create_epub w rss_feed output_filename st = (Raised AttributeError, st')
           \<and> archive st' = archive st \<and> write_calls st' = write_calls st"
proof -
  from get_feed_keeps [OF assms(1)] have k: "archive st1 = archive st"
    "write_calls st1 = write_calls st" by simp_all
  from process_articles_raises [OF assms(3), of new_book "[]" st1] k obtain st2 where
    "process_articles w (sort_articles pairs) new_book [] st1 = (Inl AttributeError, st2)"
    "archive st2 = archive st" "write_calls st2 = write_calls st"
    by auto
  with assms(1,2) show ?thesis
    by (simp add: create_epub_def)
qed

lemma archive_emit: "archive (emit ev st) = archive st"
  by (simp add: emit_def)

lemma write_calls_written:
  "write_calls ((emit (WriteEpub path b) st)\<lparr>archive := a\<rparr>) = write_calls st @ [WriteEpub path b]"
  "write_calls (emit (WriteEpub path b) st) = write_calls st @ [WriteEpub path b]"
  by (simp_all add: write_calls_def emit_def)

text \<open>What a successful run went through.\<close>

lemma successful_run:
  assumes "create_epub w rss_feed output_filename st = (Returned True, st')"
  shows "\<exists>r st1 pairs.
           get_feed create_session_with_retries w rss_feed st = (Inr r, st1)
         \<and> item_pairs (parse_items w (content r)) = Inr pairs
         \<and> (\<forall>it\<in>set (sort_articles pairs). \<not> dateless w it)
         \<and> successful w pairs \<noteq> []
         \<and> write_calls st' = write_calls st @
             [WriteEpub output_filename (final_book w (sort_articles pairs) (rng st))]
         \<and> (write_epub w output_filename (final_book w (sort_articles pairs) (rng st)) = Written
               \<and> archive st' =
                   Some (output_filename, final_book w (sort_articles pairs) (rng st))
            \<or> write_epub w output_filename (final_book w (sort_articles pairs) (rng st))
                 = NotWritten
               \<and> archive st' = archive st)"
proof -
  obtain res st1 where g: "get_feed create_session_with_retries w rss_feed st = (res, st1)"
    by (cases "get_feed create_session_with_retries w rss_feed st")
  show ?thesis
  proof (cases res)
    case (Inl e)
    with g assms show ?thesis
      by (simp add: create_epub_def split: if_splits)
  next
    case (Inr r)
    note g = g [unfolded Inr]
    show ?thesis
    proof (cases "item_pairs (parse_items w (content r))")
      case (Inl e)
      with g assms show ?thesis
        by (simp add: create_epub_def)
    next
      case pairs: (Inr pairs)
      show ?thesis
      proof (cases "\<exists>it\<in>set (sort_articles pairs). dateless w it")
        case True
        from run_raises [OF g pairs True, of output_filename] assms show ?thesis by simp
      next
        case False
        then have nd: "\<forall>it\<in>set (sort_articles pairs). \<not> dateless w it" by simp
        show ?thesis
        proof (cases "successful w pairs = []")
          case True
          from run_without_chapters [OF g pairs nd True, of output_filename] assms
          show ?thesis by simp
        next
          case ne: False
          let ?book = "final_book w (sort_articles pairs) (rng st)"
          from run_with_chapters [OF g pairs nd ne, of output_filename] assms
          obtain st2 where st2: "archive st2 = archive st" "write_calls st2 = write_calls st"
            "(Returned True, st') =
               (case write_epub w output_filename ?book of
                  Written \<Rightarrow> (Returned True,
                     (emit (WriteEpub output_filename ?book) st2)
                       \<lparr>archive := Some (output_filename, ?book)\<rparr>)
                | NotWritten \<Rightarrow> (Returned True, emit (WriteEpub output_filename ?book) st2)
                | WriteRaised e \<Rightarrow> (Returned False, emit (WriteEpub output_filename ?book) st2))"
            by auto
          have "write_calls st' = write_calls st @ [WriteEpub output_filename ?book]
            \<and> (write_epub w output_filename ?book = Written
                 \<and> archive st' = Some (output_filename, ?book)
               \<or> write_epub w output_filename ?book = NotWritten \<and> archive st' = archive st)"
          proof (cases "write_epub w output_filename ?book")
            case Written
            with st2 show ?thesis by (simp add: write_calls_written)
          next
            case NotWritten
            with st2 show ?thesis by (simp add: write_calls_written archive_emit)
          next
            case (WriteRaised e)
            with st2(3) show ?thesis by simp
          qed
          with g pairs nd ne show ?thesis by simp
        qed
      qed
    qed
  qed
qed

subsection \<open>Order of the chapters\<close>

lemma sort_articles_sorted: "sorted_wrt (\<lambda>a b. snd b \<le> snd a) (sort_articles pairs)"
proof -
  have "sorted (map snd (sort_key snd (rev pairs)))"
    by (rule sorted_sort_key)
  then have "sorted_wrt (\<lambda>a b. snd a \<le> snd b) (sort_key snd (rev pairs))"
    by (simp add: sorted_wrt_map)
  then show ?thesis
    by (simp add: sort_articles_def sorted_wrt_rev)
qed

lemma sort_articles_mset: "mset (sort_articles pairs) = mset pairs"
  by (simp add: sort_articles_def)

lemma sort_articles_stable:
  "filter (\<lambda>a. snd a = c) (sort_articles pairs) = filter (\<lambda>a. snd a = c) pairs"
proof -
  have "filter (\<lambda>a. snd a = c) (sort_articles pairs) =
      rev (filter (\<lambda>a. snd a = c) (sort_key snd (rev pairs)))"
    by (simp add: sort_articles_def rev_filter)
  also have "\<dots> = rev (filter (\<lambda>a. snd a = c) (rev pairs))"
    by (simp only: sort_key_stable)
  also have "\<dots> = filter (\<lambda>a. snd a = c) pairs"
    by (simp add: rev_filter)
  finally show ?thesis .
qed

lemma html_items_added: "List.map_filter html_of (added_items w its paths) = chapters_of w its paths"
proof (induction its arbitrary: paths)
  case Nil
  show ?case by (simp add: added_items_def chapters_of_def List.map_filter_simps)
next
  case (Cons it its)
  show ?case
  proof (cases paths)
    case Nil
    then show ?thesis by (simp add: added_items_def chapters_of_def List.map_filter_simps)
  next
    case (Cons p ps)
    with Cons.IH [of ps] show ?thesis
      by (simp add: added_items_def chapters_of_def List.map_filter_simps)
  qed
qed

lemma final_book_parts:
  "toc (final_book w its n) =
     [(''Articles'', chapters_of w (filter (item_ok w) its) (paths_of w n its))]"
  "spine (final_book w its n) =
     SpineNav # map SpineChapter (chapters_of w (filter (item_ok w) its) (paths_of w n its))"
  "html_items (final_book w its n) = chapters_of w (filter (item_ok w) its) (paths_of w n its)"
proof -
  show "toc (final_book w its n) =
     [(''Articles'', chapters_of w (filter (item_ok w) its) (paths_of w n its))]"
    by (simp add: final_book_def finish_book_def)
  show "spine (final_book w its n) =
     SpineNav # map SpineChapter (chapters_of w (filter (item_ok w) its) (paths_of w n its))"
    by (simp add: final_book_def finish_book_def)
  have "List.map_filter html_of (xs @ [EpubNcx, EpubNav, Item nav_css]) = List.map_filter html_of xs"
    for xs
    by (simp add: List.map_filter_def)
  then show "html_items (final_book w its n) =
      chapters_of w (filter (item_ok w) its) (paths_of w n its)"
    by (simp add: final_book_def finish_book_def html_items_def html_items_added)
qed

text \<open>
  C5. Before the loop the feed items are sorted by category in descending order, and items
  of equal category keep their feed order (the sorted list is a permutation of the feed's
  list, and for each category its items are in the order of the feed). In a successful run
  the writer is called once, with a book in which the chapter list that is the table of
  contents under the section Articles, the spine after its navigation entry, and the
  chapters among the book's items are one and the same list: the chapters of the
  successfully processed items of the sorted list, in the order of that list. That book is
  the archive, when the writer has written one.
\<close>

theorem chapters_follow_sorted_items:
  assumes "get_feed create_session_with_retries w rss_feed st = (Inr r, st1)"
    and "item_pairs (parse_items w (content r)) = Inr pairs"
    and "create_epub w rss_feed output_filename st = (Returned True, st')"
  shows "sorted_wrt (\<lambda>a b. snd b \<le> snd a) (sort_articles pairs)
       \<and> mset (sort_articles pairs) = mset pairs
       \<and> (\<forall>c. filter (\<lambda>a. snd a = c) (sort_articles pairs) = filter (\<lambda>a. snd a = c) pairs)
       \<and> (\<exists>book paths.
            write_calls st' = write_calls st @ [WriteEpub output_filename book]
          \<and> (write_epub w output_filename book = Written
                \<and> archive st' = Some (output_filename, book)
             \<or> write_epub w output_filename book = NotWritten \<and> archive st' = archive st)
          \<and> length paths = length (filter (item_ok w) (sort_articles pairs))
          \<and> toc book =
              [(''Articles'', chapters_of w (filter (item_ok w) (sort_articles pairs)) paths)]
          \<and> spine book =
              SpineNav # map SpineChapter
                (chapters_of w (filter (item_ok w) (sort_articles pairs)) paths)
          \<and> html_items book = chapters_of w (filter (item_ok w) (sort_articles pairs)) paths)"
proof -
  let ?book = "final_book w (sort_articles pairs) (rng st)"
  let ?paths = "paths_of w (rng st) (sort_articles pairs)"
  from successful_run [OF assms(3)] assms(1,2)
  have a: "write_calls st' = write_calls st @ [WriteEpub output_filename ?book]"
    and b: "write_epub w output_filename ?book = Written
              \<and> archive st' = Some (output_filename, ?book)
            \<or> write_epub w output_filename ?book = NotWritten \<and> archive st' = archive st"
    by auto
  have "\<exists>book paths.
            write_calls st' = write_calls st @ [WriteEpub output_filename book]
          \<and> (write_epub w output_filename book = Written
                \<and> archive st' = Some (output_filename, book)
             \<or> write_epub w output_filename book = NotWritten \<and> archive st' = archive st)
          \<and> length paths = length (filter (item_ok w) (sort_articles pairs))
          \<and> toc book =
              [(''Articles'', chapters_of w (filter (item_ok w) (sort_articles pairs)) paths)]
          \<and> spine book =
              SpineNav # map SpineChapter
                (chapters_of w (filter (item_ok w) (sort_articles pairs)) paths)
          \<and> html_items book = chapters_of w (filter (item_ok w) (sort_articles pairs)) paths"
    using a b
    by (intro exI [of _ ?book] exI [of _ ?paths])
       (simp add: final_book_parts length_paths_of)
  then show ?thesis
    using sort_articles_sorted [of pairs] sort_articles_stable [of _ pairs]
    by (simp add: sort_articles_mset)
qed

lemma demo_item_pairs: "item_pairs (parse_items demo_world c) = Inr demo_pairs"
  by (simp add: demo_world_def demo_pairs_def)

lemma demo_sorted:
  "sort_articles demo_pairs =
     [(''u2'', ''internacional''), (''u5'', ''internacional''), (''u1'', ''economia''),
      (''u3'', ''economia''), (''u4'', ''deportes'')]"
  by code_simp

lemma demo_item_ok:
  "item_ok demo_world (''u2'', ''internacional'')"
  "\<not> item_ok demo_world (''u5'', ''internacional'')"
  "item_ok demo_world (''u1'', ''economia'')"
  "\<not> item_ok demo_world (''u3'', ''economia'')"
  "\<not> item_ok demo_world (''u4'', ''deportes'')"
  by code_simp+

lemma demo_articles:
  "article_of demo_world ''u1'' = Some (demo_article ''A 1'')"
  "article_of demo_world ''u2'' = Some (demo_article ''B/2'')"
  by code_simp+

lemma demo_get_feed:
  "feed_reply w = feed_reply demo_world \<Longrightarrow>
   get_feed create_session_with_retries w feed_url initial_state =
     (Inr \<lparr>status_code = 200, content = ''<rss/>''\<rparr>, emit (FeedGet feed_url) initial_state)"
  by (rule get_feed_200 [OF feed_url_lower]) (simp add: demo_world_def)

lemma set_sort_articles: "set (sort_articles pairs) = set pairs"
  by (simp add: sort_articles_def)

lemma demo_dateless: "filter (dateless demo_world) demo_pairs = []"
  unfolding demo_pairs_def by code_simp

lemma demo_successful:
  "successful demo_world demo_pairs = [(''u2'', ''internacional''), (''u1'', ''economia'')]"
  unfolding successful_def by (simp only: demo_sorted) (simp add: demo_item_ok)

lemma demo_run: "fst (create_epub demo_world feed_url ''el_pais.epub'' initial_state) = Returned True"
proof -
  have g: "get_feed create_session_with_retries demo_world feed_url initial_state =
     (Inr \<lparr>status_code = 200, content = ''<rss/>''\<rparr>, emit (FeedGet feed_url) initial_state)"
    by (rule demo_get_feed) simp
  have p: "item_pairs (parse_items demo_world (content \<lparr>status_code = 200, content = ''<rss/>''\<rparr>))
      = Inr demo_pairs"
    by (rule demo_item_pairs)
  have nd: "\<forall>it\<in>set (sort_articles demo_pairs). \<not> dateless demo_world it"
    using demo_dateless by (simp only: set_sort_articles filter_empty_conv)
  have ne: "successful demo_world demo_pairs \<noteq> []"
    by (simp add: demo_successful)
  have w: "write_epub demo_world path b = Written" for path b
    by (simp add: demo_world_def)
  from run_with_chapters [OF g p nd ne, of "''el_pais.epub''"] show ?thesis
    by (auto simp: w)
qed

theorem chapters_follow_sorted_items_witness:
  "fst (create_epub demo_world feed_url ''el_pais.epub'' initial_state) = Returned True
   \<and> sort_articles demo_pairs =
     [(''u2'', ''internacional''), (''u5'', ''internacional''), (''u1'', ''economia''),
      (''u3'', ''economia''), (''u4'', ''deportes'')]
   \<and> (\<exists>book. archive (snd (create_epub demo_world feed_url ''el_pais.epub'' initial_state)) =
                Some (''el_pais.epub'', book)
            \<and> map chap_title (html_items book) = [''B/2'', ''A 1''])"
proof -
  have g: "get_feed create_session_with_retries demo_world feed_url initial_state =
     (Inr \<lparr>status_code = 200, content = ''<rss/>''\<rparr>, emit (FeedGet feed_url) initial_state)"
    by (rule demo_get_feed) simp
  have p: "item_pairs (parse_items demo_world (content \<lparr>status_code = 200, content = ''<rss/>''\<rparr>))
      = Inr demo_pairs"
    by (rule demo_item_pairs)
  have c: "create_epub demo_world feed_url ''el_pais.epub'' initial_state =
      (Returned True, snd (create_epub demo_world feed_url ''el_pais.epub'' initial_state))"
    using demo_run by (simp add: prod_eq_iff)
  have w: "write_epub demo_world path b = Written" for path b
    by (simp add: demo_world_def)
  from chapters_follow_sorted_items [OF g p c] w obtain book paths where b:
    "archive (snd (create_epub demo_world feed_url ''el_pais.epub'' initial_state)) =
       Some (''el_pais.epub'', book)"
    "length paths = length (filter (item_ok demo_world) (sort_articles demo_pairs))"
    "html_items book = chapters_of demo_world (filter (item_ok demo_world) (sort_articles demo_pairs)) paths"
    by auto
  have f: "filter (item_ok demo_world) (sort_articles demo_pairs) =
      [(''u2'', ''internacional''), (''u1'', ''economia'')]"
    by (simp only: demo_sorted) (simp add: demo_item_ok)
  from b(2) f obtain p1 p2 where "paths = [p1, p2]"
    by (cases paths; cases "tl paths"; cases "tl (tl paths)") auto
  with b(3) f have "map chap_title (html_items book) = [''B/2'', ''A 1'']"
    by (simp add: chapters_of_def chapter_of_def demo_articles demo_article_def)
  with b(1) demo_run demo_sorted show ?thesis by simp
qed

subsection \<open>Outcome of the run and number of chapters\<close>

lemma item_pairs_length: "item_pairs its = Inr pairs \<Longrightarrow> length pairs = length its"
  by (induction its arbitrary: pairs) (auto split: option.splits sum.splits)

lemma successful_bound: "length (successful w pairs) \<le> length pairs"
proof -
  have "length (successful w pairs) \<le> length (sort_articles pairs)"
    by (simp add: successful_def)
  then show ?thesis by (simp add: sort_articles_def)
qed

lemma successful_Nil_iff: "successful w pairs = [] \<longleftrightarrow> (\<forall>it\<in>set pairs. \<not> item_ok w it)"
  by (auto simp: successful_def sort_articles_def filter_empty_conv)

text \<open>
  C4 (as amended). Take a run whose feed is fetched and parsed and in which no extracted
  article lacks a publish date. If no item is processed successfully (each fails
  extraction, the date filter or the image capture), \<^verbatim>\<open>create_epub\<close> returns failure,
  does not call the writer and writes no archive. If at least one item dated today is
  processed successfully, the run calls the writer once, with a book whose chapter count is
  at least 1 and at most the feed's item count, and it returns success exactly when
  \<^verbatim>\<open>write_epub\<close> raises nothing: with that archive written, or with none when the writer
  returns without having written. When \<^verbatim>\<open>write_epub\<close> raises, the run returns failure.
\<close>

theorem run_outcome_by_chapters:
  assumes "get_feed create_session_with_retries w rss_feed st = (Inr r, st1)"
    and "item_pairs (parse_items w (content r)) = Inr pairs"
    and "\<forall>it\<in>set pairs. \<not> dateless w it"
  shows "((\<forall>it\<in>set pairs. \<not> item_ok w it) \<longrightarrow>
            (\<exists>st'. create_epub w rss_feed output_filename st = (Returned False, st')
                  \<and> archive st' = archive st \<and> write_calls st' = write_calls st))
       \<and> ((\<exists>it\<in>set pairs. item_ok w it) \<longrightarrow>
            (\<exists>st' book chapters.
                toc book = [(''Articles'', chapters)]
              \<and> 1 \<le> length chapters
              \<and> length chapters \<le> length (parse_items w (content r))
              \<and> archive st' = archive st
              \<and> write_calls st' = write_calls st @ [WriteEpub output_filename book]
              \<and> create_epub w rss_feed output_filename st =
                  (case write_epub w output_filename book of
                     Written \<Rightarrow> (Returned True, st'\<lparr>archive := Some (output_filename, book)\<rparr>)
                   | NotWritten \<Rightarrow> (Returned True, st')
                   | WriteRaised e \<Rightarrow> (Returned False, st'))))"
proof -
  from assms(3) have nd: "\<forall>it\<in>set (sort_articles pairs). \<not> dateless w it"
    by (simp add: set_sort_articles)
  have none: "(\<forall>it\<in>set pairs. \<not> item_ok w it) \<longrightarrow>
            (\<exists>st'. create_epub w rss_feed output_filename st = (Returned False, st')
                  \<and> archive st' = archive st \<and> write_calls st' = write_calls st)"
  proof
    assume "\<forall>it\<in>set pairs. \<not> item_ok w it"
    then have "successful w pairs = []" by (simp add: successful_Nil_iff)
    from run_without_chapters [OF assms(1,2) nd this]
    show "\<exists>st'. create_epub w rss_feed output_filename st = (Returned False, st')
                  \<and> archive st' = archive st \<and> write_calls st' = write_calls st" .
  qed
  have some: "(\<exists>it\<in>set pairs. item_ok w it) \<longrightarrow>
            (\<exists>st' book chapters.
                toc book = [(''Articles'', chapters)]
              \<and> 1 \<le> length chapters
              \<and> length chapters \<le> length (parse_items w (content r))
              \<and> archive st' = archive st
              \<and> write_calls st' = write_calls st @ [WriteEpub output_filename book]
              \<and> create_epub w rss_feed output_filename st =
                  (case write_epub w output_filename book of
                     Written \<Rightarrow> (Returned True, st'\<lparr>archive := Some (output_filename, book)\<rparr>)
                   | NotWritten \<Rightarrow> (Returned True, st')
                   | WriteRaised e \<Rightarrow> (Returned False, st')))"
  proof
    assume "\<exists>it\<in>set pairs. item_ok w it"
    then have ne: "successful w pairs \<noteq> []" by (simp add: successful_Nil_iff)
    let ?book = "final_book w (sort_articles pairs) (rng st)"
    let ?chs = "chapters_of w (successful w pairs) (paths_of w (rng st) (sort_articles pairs))"
    from run_with_chapters [OF assms(1,2) nd ne, of output_filename] obtain st2 where st2:
      "archive st2 = archive st" "write_calls st2 = write_calls st"
      "create_epub w rss_feed output_filename st =
         (case write_epub w output_filename ?book of
            Written \<Rightarrow> (Returned True,
               (emit (WriteEpub output_filename ?book) st2)
                 \<lparr>archive := Some (output_filename, ?book)\<rparr>)
          | NotWritten \<Rightarrow> (Returned True, emit (WriteEpub output_filename ?book) st2)
          | WriteRaised e \<Rightarrow> (Returned False, emit (WriteEpub output_filename ?book) st2))"
      by blast
    let ?st' = "emit (WriteEpub output_filename ?book) st2"
    have a: "archive ?st' = archive st"
      using st2(1) by (simp add: archive_emit)
    have c: "write_calls ?st' = write_calls st @ [WriteEpub output_filename ?book]"
      using st2(2) by (simp add: write_calls_written)
    have len: "length ?chs = length (successful w pairs)"
      by (simp add: length_chapters_of length_paths_of successful_def)
    with ne have one: "1 \<le> length ?chs"
      by (cases "successful w pairs") simp_all
    from len successful_bound [of w pairs] item_pairs_length [OF assms(2)]
    have most: "length ?chs \<le> length (parse_items w (content r))" by simp
    have t: "toc ?book = [(''Articles'', ?chs)]"
      by (simp add: final_book_parts successful_def)
    from t one most a c st2(3)
    show "\<exists>st' book chapters.
                toc book = [(''Articles'', chapters)]
              \<and> 1 \<le> length chapters
              \<and> length chapters \<le> length (parse_items w (content r))
              \<and> archive st' = archive st
              \<and> write_calls st' = write_calls st @ [WriteEpub output_filename book]
              \<and> create_epub w rss_feed output_filename st =
                  (case write_epub w output_filename book of
                     Written \<Rightarrow> (Returned True, st'\<lparr>archive := Some (output_filename, book)\<rparr>)
                   | NotWritten \<Rightarrow> (Returned True, st')
                   | WriteRaised e \<Rightarrow> (Returned False, st'))"
      by blast
  qed
  from none some show ?thesis by (rule conjI)
qed

lemma next_day_dateless: "filter (dateless next_day) demo_pairs = []"
  unfolding demo_pairs_def by code_simp

lemma next_day_item_ok: "filter (item_ok next_day) demo_pairs = []"
  unfolding demo_pairs_def by code_simp

lemma single_get_feed:
  "feed_reply w = feed_reply demo_world \<Longrightarrow> parse_items w = parse_items single_world \<Longrightarrow>
   get_feed create_session_with_retries w feed_url initial_state =
     (Inr \<lparr>status_code = 200, content = ''<rss/>''\<rparr>, emit (FeedGet feed_url) initial_state)
   \<and> item_pairs (parse_items w (content \<lparr>status_code = 200, content = ''<rss/>''\<rparr>)) =
       Inr [(''u1'', ''economia'')]"
  using demo_get_feed [of w] by (simp add: single_world_def)

lemma write_swallowed_facts:
  "\<not> dateless write_swallowed (''u1'', ''economia'')"
  "item_ok write_swallowed (''u1'', ''economia'')"
  by code_simp+

lemma write_failing_facts:
  "\<not> dateless write_failing (''u1'', ''economia'')"
  "item_ok write_failing (''u1'', ''economia'')"
  by code_simp+

theorem run_outcome_by_chapters_witness:
  "filter (dateless demo_world) demo_pairs = []
   \<and> item_ok demo_world (''u1'', ''economia'')
   \<and> (\<exists>st' book chapters.
        create_epub demo_world feed_url ''el_pais.epub'' initial_state =
          (Returned True, st'\<lparr>archive := Some (''el_pais.epub'', book)\<rparr>)
        \<and> toc book = [(''Articles'', chapters)]
        \<and> 1 \<le> length chapters \<and> length chapters \<le> 5)
   \<and> filter (item_ok next_day) demo_pairs = []
   \<and> (\<exists>st'. create_epub next_day feed_url ''el_pais.epub'' initial_state = (Returned False, st')
           \<and> archive st' = None \<and> write_calls st' = [])
   \<and> (\<exists>st'. create_epub write_swallowed feed_url ''el_pais.epub'' initial_state =
               (Returned True, st')
           \<and> archive st' = None)"
proof -
  let ?r = "\<lparr>status_code = 200, content = ''<rss/>''\<rparr>"
  have g: "get_feed create_session_with_retries demo_world feed_url initial_state =
     (Inr ?r, emit (FeedGet feed_url) initial_state)"
    by (rule demo_get_feed) simp
  have p: "item_pairs (parse_items demo_world (content ?r)) = Inr demo_pairs"
    by (rule demo_item_pairs)
  have nd: "\<forall>it\<in>set demo_pairs. \<not> dateless demo_world it"
    using demo_dateless by (simp only: filter_empty_conv)
  have ok: "\<exists>it\<in>set demo_pairs. item_ok demo_world it"
    using demo_item_ok(3) by (simp add: demo_pairs_def)
  have n: "length (parse_items demo_world (content ?r)) = 5"
    by (simp add: demo_world_def)
  have w: "write_epub demo_world path b = Written" for path b
    by (simp add: demo_world_def)
  from run_outcome_by_chapters [OF g p nd, of "''el_pais.epub''"] ok
  have first: "\<exists>st' book chapters.
        create_epub demo_world feed_url ''el_pais.epub'' initial_state =
          (Returned True, st'\<lparr>archive := Some (''el_pais.epub'', book)\<rparr>)
        \<and> toc book = [(''Articles'', chapters)]
        \<and> 1 \<le> length chapters \<and> length chapters \<le> 5"
    by (simp only: n w write_result.case) blast
  have g': "get_feed create_session_with_retries next_day feed_url initial_state =
     (Inr ?r, emit (FeedGet feed_url) initial_state)"
    by (rule demo_get_feed) (simp add: next_day_def)
  have p': "item_pairs (parse_items next_day (content ?r)) = Inr demo_pairs"
    using demo_item_pairs by (simp add: next_day_def)
  have nd': "\<forall>it\<in>set demo_pairs. \<not> dateless next_day it"
    using next_day_dateless by (simp only: filter_empty_conv)
  have no: "\<forall>it\<in>set demo_pairs. \<not> item_ok next_day it"
    using next_day_item_ok by (simp only: filter_empty_conv)
  from run_outcome_by_chapters [OF g' p' nd', of "''el_pais.epub''"] no
  have second: "\<exists>st'. create_epub next_day feed_url ''el_pais.epub'' initial_state = (Returned False, st')
           \<and> archive st' = None \<and> write_calls st' = []"
    by (simp add: initial_state_def write_calls_def)
  have s: "get_feed create_session_with_retries write_swallowed feed_url initial_state =
     (Inr ?r, emit (FeedGet feed_url) initial_state)"
    "item_pairs (parse_items write_swallowed (content ?r)) = Inr [(''u1'', ''economia'')]"
    using single_get_feed [of write_swallowed]
    by (simp_all add: write_swallowed_def single_world_def)
  have nd'': "\<forall>it\<in>set [(''u1'', ''economia'')]. \<not> dateless write_swallowed it"
    using write_swallowed_facts(1) by simp
  have ok'': "\<exists>it\<in>set [(''u1'', ''economia'')]. item_ok write_swallowed it"
    using write_swallowed_facts(2) by simp
  have w'': "write_epub write_swallowed path b = NotWritten" for path b
    by (simp add: write_swallowed_def)
  from run_outcome_by_chapters [OF s nd'', of "''el_pais.epub''"] ok''
  have third: "\<exists>st'. create_epub write_swallowed feed_url ''el_pais.epub'' initial_state =
               (Returned True, st')
           \<and> archive st' = None"
    by (simp only: w'' write_result.case) (auto simp: initial_state_def)
  from first second third demo_dateless demo_item_ok(3) next_day_item_ok show ?thesis
    by (intro conjI)
qed

text \<open>
  C4 as stated fails: a reachable feed whose only item is dated today and is processed
  successfully, and a run that returns failure, because the writer raises.
\<close>

theorem run_fails_on_write_counterexample:
  "fst (get_feed create_session_with_retries write_failing feed_url initial_state) =
     Inr \<lparr>status_code = 200, content = ''<rss/>''\<rparr>
   \<and> item_pairs (parse_items write_failing ''<rss/>'') = Inr [(''u1'', ''economia'')]
   \<and> item_ok write_failing (''u1'', ''economia'')
   \<and> fst (create_epub write_failing feed_url ''el_pais.epub'' initial_state) = Returned False"
proof -
  let ?r = "\<lparr>status_code = 200, content = ''<rss/>''\<rparr>"
  have s: "get_feed create_session_with_retries write_failing feed_url initial_state =
     (Inr ?r, emit (FeedGet feed_url) initial_state)"
    "item_pairs (parse_items write_failing (content ?r)) = Inr [(''u1'', ''economia'')]"
    using single_get_feed [of write_failing]
    by (simp_all add: write_failing_def single_world_def)
  have nd: "\<forall>it\<in>set (sort_articles [(''u1'', ''economia'')]). \<not> dateless write_failing it"
    using write_failing_facts(1) by (simp add: set_sort_articles)
  have ne: "successful write_failing [(''u1'', ''economia'')] \<noteq> []"
    using write_failing_facts(2) by (simp add: successful_Nil_iff)
  have w: "write_epub write_failing path b = WriteRaised OtherError" for path b
    by (simp add: write_failing_def)
  from run_with_chapters [OF s nd ne, of "''el_pais.epub''"]
  have "fst (create_epub write_failing feed_url ''el_pais.epub'' initial_state) = Returned False"
    by (auto simp: w)
  with s write_failing_facts(2) show ?thesis by simp
qed

subsection \<open>Running twice\<close>

lemma sleep_retry_result:
  "(\<exists>e. sleep_retry r h ra st = Inl e \<and> sleep_retry r h ra st' = Inl e)
   \<or> (\<exists>s s'. sleep_retry r h ra st = Inr s \<and> sleep_retry r h ra st' = Inr s')"
  by (cases ra) (simp_all add: sleep_retry_def)

lemma send_result: "fst (send r w url h n st) = fst (send r w url h n st')"
proof (induction n arbitrary: h st st')
  case 0
  show ?case by (simp add: Let_def split: reply.splits)
next
  case (Suc n)
  show ?case
  proof (cases "feed_reply w url h")
    case ConnectionFailed
    with Suc.IH [of "Suc h" "sleep_backoff r (Suc h) (emit (FeedGet url) st)"
        "sleep_backoff r (Suc h) (emit (FeedGet url) st')"]
    show ?thesis by (simp add: Let_def)
  next
    case (Response resp ra)
    show ?thesis
    proof (cases "is_retry r (Suc n) (status_code resp) (ra \<noteq> NoHeader)")
      case False
      with Response show ?thesis by (simp add: Let_def)
    next
      case True
      from sleep_retry_result [of r "Suc h" ra "emit (FeedGet url) st" "emit (FeedGet url) st'"]
      show ?thesis
      proof
        assume "\<exists>e. sleep_retry r (Suc h) ra (emit (FeedGet url) st) = Inl e
          \<and> sleep_retry r (Suc h) ra (emit (FeedGet url) st') = Inl e"
        with True Response show ?thesis by (auto simp: Let_def)
      next
        assume "\<exists>s s'. sleep_retry r (Suc h) ra (emit (FeedGet url) st) = Inr s
          \<and> sleep_retry r (Suc h) ra (emit (FeedGet url) st') = Inr s'"
        then obtain s s' where "sleep_retry r (Suc h) ra (emit (FeedGet url) st) = Inr s"
          "sleep_retry r (Suc h) ra (emit (FeedGet url) st') = Inr s'"
          by blast
        with True Response Suc.IH [of "Suc h" s s'] show ?thesis by (simp add: Let_def)
      qed
    qed
  qed
qed

lemma get_feed_result: "fst (get_feed s w url st) = fst (get_feed s w url st')"
proof (cases "get_adapter s url")
  case None
  then show ?thesis by (simp add: get_feed_def session_get_def)
next
  case (Some r)
  obtain res1 st1 where a: "send r w url 0 (total r) st = (res1, st1)"
    by (cases "send r w url 0 (total r) st")
  obtain res2 st2 where b: "send r w url 0 (total r) st' = (res2, st2)"
    by (cases "send r w url 0 (total r) st'")
  from send_result [of r w url 0 "total r" st st'] a b have "res1 = res2" by simp
  with Some a b show ?thesis
    by (simp add: get_feed_def session_get_def split: sum.splits)
qed

lemma send_random: "send r (w\<lparr>random_index := f\<rparr>) url h n st = send r w url h n st"
proof (induction n arbitrary: h st)
  case 0
  show ?case by (simp add: Let_def)
next
  case (Suc n)
  show ?case
  proof (cases "feed_reply w url h")
    case ConnectionFailed
    then show ?thesis by (simp add: Let_def Suc.IH)
  next
    case (Response resp ra)
    then show ?thesis
      by (cases "sleep_retry r (Suc h) ra (emit (FeedGet url) st)")
         (simp_all add: Let_def Suc.IH)
  qed
qed

lemma get_feed_random: "get_feed s (w\<lparr>random_index := f\<rparr>) url st = get_feed s w url st"
  by (cases "get_adapter s url") (simp_all add: get_feed_def session_get_def send_random)

lemma attempts_random: "attempts (w\<lparr>random_index := f\<rparr>) url m ks st = attempts w url m ks st"
proof (induction ks arbitrary: st)
  case Nil
  show ?case by simp
next
  case (Cons k ks)
  show ?case
    by (cases "article_fetch w url k") (simp_all add: Let_def Cons.IH)
qed

lemma article_of_random: "article_of (w\<lparr>random_index := f\<rparr>) url = article_of w url"
  by (simp add: article_of_def download_article_with_retry_def attempts_random)

lemma item_ok_random: "item_ok (w\<lparr>random_index := f\<rparr>) it = item_ok w it"
proof -
  have "captured (w\<lparr>random_index := f\<rparr>) a = captured w a" for a
    by (simp add: captured_def image_served_def)
  then show ?thesis
    by (simp add: item_ok_def article_of_random split: option.splits)
qed

lemma chapter_of_random: "chapter_of (w\<lparr>random_index := f\<rparr>) it path = chapter_of w it path"
proof -
  have "article_content (w\<lparr>random_index := f\<rparr>) a = article_content w a" for a
    by (simp add: article_content_def)
  then show ?thesis
    by (simp add: chapter_of_def article_of_random split: option.splits)
qed

lemma chapters_of_random: "chapters_of (w\<lparr>random_index := f\<rparr>) its paths = chapters_of w its paths"
  by (simp add: chapters_of_def chapter_of_random)

lemma item_ok_random_fun: "item_ok (w\<lparr>random_index := f\<rparr>) = item_ok w"
  by (rule ext) (rule item_ok_random)

lemma chapter_of_title:
  "chap_title (chapter_of w it p) = chap_title (chapter_of w it q)
   \<and> chap_file_name (chapter_of w it p) = chap_file_name (chapter_of w it q)"
  by (cases "article_of w (fst it)") (simp_all add: chapter_of_def)

lemma chapters_of_titles:
  "length p1 = length its \<Longrightarrow> length its = length p2 \<Longrightarrow>
   map chap_title (chapters_of w its p1) = map chap_title (chapters_of w its p2)
   \<and> map chap_file_name (chapters_of w its p1) = map chap_file_name (chapters_of w its p2)"
proof (induction p1 its p2 rule: list_induct3)
  case Nil
  show ?case by (simp add: chapters_of_def)
next
  case (Cons a as it its b bs)
  have "chapters_of w (it # its) (a # as) = chapter_of w it a # chapters_of w its as"
    by (simp add: chapters_of_def)
  moreover have "chapters_of w (it # its) (b # bs) = chapter_of w it b # chapters_of w its bs"
    by (simp add: chapters_of_def)
  ultimately show ?case
    using Cons.IH chapter_of_title [of w it a b] by (simp only: list.map)
qed


text \<open>
  C9. Two runs against the same feed and articles on the same day, which differ only in
  the random draws (and in the state they start from), and which both return success: each
  calls the writer once, and the two books hold the chapters of the same items in the same
  order, as table of contents, as spine and as items, with the same titles and file names;
  the chapters differ at most in the scratch-image path \<open>paths1\<close> or \<open>paths2\<close> they are built
  with. These books are the archives, where the writer has written them.
\<close>

theorem rerun_same_chapters:
  assumes "create_epub w rss_feed output_filename st = (Returned True, s1)"
    and "create_epub (w\<lparr>random_index := f\<rparr>) rss_feed output_filename st' = (Returned True, s2)"
  shows "\<exists>its paths1 paths2 book1 book2.
           write_calls s1 = write_calls st @ [WriteEpub output_filename book1]
         \<and> write_calls s2 = write_calls st' @ [WriteEpub output_filename book2]
         \<and> (write_epub w output_filename book1 = Written
               \<and> archive s1 = Some (output_filename, book1)
            \<or> write_epub w output_filename book1 = NotWritten \<and> archive s1 = archive st)
         \<and> (write_epub (w\<lparr>random_index := f\<rparr>) output_filename book2 = Written
               \<and> archive s2 = Some (output_filename, book2)
            \<or> write_epub (w\<lparr>random_index := f\<rparr>) output_filename book2 = NotWritten
               \<and> archive s2 = archive st')
         \<and> length paths1 = length its \<and> length paths2 = length its
         \<and> html_items book1 = chapters_of w its paths1
         \<and> html_items book2 = chapters_of w its paths2
         \<and> toc book1 = [(''Articles'', html_items book1)]
         \<and> toc book2 = [(''Articles'', html_items book2)]
         \<and> spine book1 = SpineNav # map SpineChapter (html_items book1)
         \<and> spine book2 = SpineNav # map SpineChapter (html_items book2)
         \<and> map chap_title (html_items book1) = map chap_title (html_items book2)
         \<and> map chap_file_name (html_items book1) = map chap_file_name (html_items book2)"
proof -
  let ?w' = "w\<lparr>random_index := f\<rparr>"
  from successful_run [OF assms(1)] obtain r st1 pairs where one:
    "get_feed create_session_with_retries w rss_feed st = (Inr r, st1)"
    "item_pairs (parse_items w (content r)) = Inr pairs"
    "write_calls s1 = write_calls st @
       [WriteEpub output_filename (final_book w (sort_articles pairs) (rng st))]"
    "write_epub w output_filename (final_book w (sort_articles pairs) (rng st)) = Written
       \<and> archive s1 = Some (output_filename, final_book w (sort_articles pairs) (rng st))
     \<or> write_epub w output_filename (final_book w (sort_articles pairs) (rng st)) = NotWritten
       \<and> archive s1 = archive st"
    by blast
  from successful_run [OF assms(2)] obtain r' st1' pairs' where two:
    "get_feed create_session_with_retries ?w' rss_feed st' = (Inr r', st1')"
    "item_pairs (parse_items ?w' (content r')) = Inr pairs'"
    "write_calls s2 = write_calls st' @
       [WriteEpub output_filename (final_book ?w' (sort_articles pairs') (rng st'))]"
    "write_epub ?w' output_filename (final_book ?w' (sort_articles pairs') (rng st')) = Written
       \<and> archive s2 = Some (output_filename, final_book ?w' (sort_articles pairs') (rng st'))
     \<or> write_epub ?w' output_filename (final_book ?w' (sort_articles pairs') (rng st'))
          = NotWritten
       \<and> archive s2 = archive st'"
    by blast
  from get_feed_result [of create_session_with_retries w rss_feed st st'] one(1) two(1)
  have r: "r' = r" by (simp add: get_feed_random)
  from one(2) two(2) have pairs: "pairs' = pairs" by (simp add: r)
  let ?sorted = "sort_articles pairs"
  let ?its = "filter (item_ok w) ?sorted"
  let ?p1 = "paths_of w (rng st) ?sorted"
  let ?p2 = "paths_of ?w' (rng st') ?sorted"
  let ?b1 = "final_book w ?sorted (rng st)"
  let ?b2 = "final_book ?w' ?sorted (rng st')"
  have h1: "html_items ?b1 = chapters_of w ?its ?p1"
    by (rule final_book_parts)
  have h2: "html_items ?b2 = chapters_of w ?its ?p2"
    by (simp only: final_book_parts chapters_of_random item_ok_random_fun)
  have t1: "toc ?b1 = [(''Articles'', html_items ?b1)]"
    by (simp only: final_book_parts)
  have t2: "toc ?b2 = [(''Articles'', html_items ?b2)]"
    by (simp only: final_book_parts)
  have sp1: "spine ?b1 = SpineNav # map SpineChapter (html_items ?b1)"
    by (simp only: final_book_parts)
  have sp2: "spine ?b2 = SpineNav # map SpineChapter (html_items ?b2)"
    by (simp only: final_book_parts)
  have l1: "length ?p1 = length ?its"
    by (simp only: length_paths_of)
  have l2: "length ?p2 = length ?its"
    by (simp only: length_paths_of item_ok_random_fun)
  from chapters_of_titles [OF l1 l2 [symmetric], of w]
  have tt: "map chap_title (html_items ?b1) = map chap_title (html_items ?b2)"
    and ff: "map chap_file_name (html_items ?b1) = map chap_file_name (html_items ?b2)"
    by (simp_all only: h1 h2)
  note c1 = one(3) and a1 = one(4)
  from two(3) have c2: "write_calls s2 = write_calls st' @ [WriteEpub output_filename ?b2]"
    by (simp only: pairs)
  from two(4) have a2: "write_epub ?w' output_filename ?b2 = Written
       \<and> archive s2 = Some (output_filename, ?b2)
     \<or> write_epub ?w' output_filename ?b2 = NotWritten \<and> archive s2 = archive st'"
    by (simp only: pairs)
  from c1 c2 a1 a2 l1 l2 h1 h2 t1 t2 sp1 sp2 tt ff show ?thesis
    by blast
qed

text \<open>A run of a world that differs from the example at most in the random draws.\<close>

lemma demo_run_reseeded:
  "fst (create_epub (demo_world\<lparr>random_index := f\<rparr>) feed_url ''el_pais.epub'' initial_state)
     = Returned True"
proof -
  let ?w = "demo_world\<lparr>random_index := f\<rparr>"
  have g: "get_feed create_session_with_retries ?w feed_url initial_state =
     (Inr \<lparr>status_code = 200, content = ''<rss/>''\<rparr>, emit (FeedGet feed_url) initial_state)"
    by (rule demo_get_feed) simp
  have p: "item_pairs (parse_items ?w (content \<lparr>status_code = 200, content = ''<rss/>''\<rparr>))
      = Inr demo_pairs"
    using demo_item_pairs by simp
  have d: "dateless ?w = dateless demo_world"
    by (intro ext) (simp add: dateless_def article_of_random)
  have nd: "\<forall>it\<in>set (sort_articles demo_pairs). \<not> dateless ?w it"
    using demo_dateless by (simp only: set_sort_articles d filter_empty_conv)
  have ne: "successful ?w demo_pairs \<noteq> []"
    using demo_successful by (simp add: successful_def item_ok_random_fun)
  have w: "write_epub demo_world path b = Written" for path b
    by (simp add: demo_world_def)
  from run_with_chapters [OF g p nd ne, of "''el_pais.epub''"] show ?thesis
    by (auto simp: w)
qed

theorem rerun_same_chapters_witness:
  "fst (create_epub demo_world feed_url ''el_pais.epub'' initial_state) = Returned True
   \<and> fst (create_epub (demo_world\<lparr>random_index := (\<lambda>k. 3 * k + 1)\<rparr>) feed_url ''el_pais.epub''
          initial_state) = Returned True
   \<and> (\<exists>book1 book2.
         archive (snd (create_epub demo_world feed_url ''el_pais.epub'' initial_state)) =
           Some (''el_pais.epub'', book1)
       \<and> archive (snd (create_epub (demo_world\<lparr>random_index := (\<lambda>k. 3 * k + 1)\<rparr>) feed_url
            ''el_pais.epub'' initial_state)) = Some (''el_pais.epub'', book2)
       \<and> map chap_title (html_items book1) = map chap_title (html_items book2)
       \<and> map chap_file_name (html_items book1) = map chap_file_name (html_items book2))"
proof -
  let ?w' = "demo_world\<lparr>random_index := (\<lambda>k. 3 * k + 1)\<rparr>"
  have a: "create_epub demo_world feed_url ''el_pais.epub'' initial_state =
      (Returned True, snd (create_epub demo_world feed_url ''el_pais.epub'' initial_state))"
    using demo_run by (simp add: prod_eq_iff)
  have b: "create_epub ?w' feed_url ''el_pais.epub'' initial_state =
      (Returned True, snd (create_epub ?w' feed_url ''el_pais.epub'' initial_state))"
    using demo_run_reseeded [of "\<lambda>k. 3 * k + 1"] by (simp add: prod_eq_iff)
  have w: "write_epub demo_world path bk = Written" "write_epub ?w' path bk = Written"
    for path bk
    by (simp_all add: demo_world_def)
  from rerun_same_chapters [OF a b] obtain book1 book2 where
    "write_epub demo_world ''el_pais.epub'' book1 = Written
       \<and> archive (snd (create_epub demo_world feed_url ''el_pais.epub'' initial_state))
           = Some (''el_pais.epub'', book1)
     \<or> write_epub demo_world ''el_pais.epub'' book1 = NotWritten
       \<and> archive (snd (create_epub demo_world feed_url ''el_pais.epub'' initial_state))
           = archive initial_state"
    "write_epub ?w' ''el_pais.epub'' book2 = Written
       \<and> archive (snd (create_epub ?w' feed_url ''el_pais.epub'' initial_state))
           = Some (''el_pais.epub'', book2)
     \<or> write_epub ?w' ''el_pais.epub'' book2 = NotWritten
       \<and> archive (snd (create_epub ?w' feed_url ''el_pais.epub'' initial_state))
           = archive initial_state"
    "map chap_title (html_items book1) = map chap_title (html_items book2)"
    "map chap_file_name (html_items book1) = map chap_file_name (html_items book2)"
    by blast
  then have "archive (snd (create_epub demo_world feed_url ''el_pais.epub'' initial_state))
           = Some (''el_pais.epub'', book1)
      \<and> archive (snd (create_epub ?w' feed_url ''el_pais.epub'' initial_state))
           = Some (''el_pais.epub'', book2)
      \<and> map chap_title (html_items book1) = map chap_title (html_items book2)
      \<and> map chap_file_name (html_items book1) = map chap_file_name (html_items book2)"
    by (simp only: w) simp
  with demo_run demo_run_reseeded [of "\<lambda>k. 3 * k + 1"] show ?thesis
    by blast
qed

subsection \<open>Where the code departs from the specification\<close>

text \<open>
  C1 (the code departs from it). The feed has one item; its article is extracted and dated
  today, and the image server answers 404. The capture returns None, as the claim says,
  but then \<^verbatim>\<open>open(None, 'rb')\<close> raises a TypeError inside the per-item try: the chapter
  is dropped, and with it the run, which returns False and writes no archive. With the
  image served, the same feed gives a run that succeeds.
\<close>

theorem image_failure_drops_chapter:
  "article_of image_failing ''u1'' = Some (demo_article ''A 1'')
   \<and> map_option date_of (publish_date (demo_article ''A 1'')) = Some (today image_failing)
   \<and> fst (download_image image_failing (top_img (demo_article ''A 1'')) initial_state) = Inr None
   \<and> fst (build_chapter image_failing ''economia'' (demo_article ''A 1'') initial_state)
       = Inl TypeError
   \<and> fst (create_epub image_failing feed_url ''el_pais.epub'' initial_state) = Returned False
   \<and> archive (snd (create_epub image_failing feed_url ''el_pais.epub'' initial_state)) = None
   \<and> fst (create_epub single_world feed_url ''el_pais.epub'' initial_state) = Returned True"
proof -
  have "article_of image_failing ''u1'' = Some (demo_article ''A 1'')"
    by code_simp
  moreover have "map_option date_of (publish_date (demo_article ''A 1'')) = Some (today image_failing)"
    by code_simp
  moreover have
    "fst (download_image image_failing (top_img (demo_article ''A 1'')) initial_state) = Inr None"
    by code_simp
  moreover have
    "fst (build_chapter image_failing ''economia'' (demo_article ''A 1'') initial_state)
       = Inl TypeError"
    by code_simp
  moreover have
    "fst (create_epub image_failing feed_url ''el_pais.epub'' initial_state) = Returned False"
    by code_simp
  moreover have
    "archive (snd (create_epub image_failing feed_url ''el_pais.epub'' initial_state)) = None"
    by code_simp
  moreover have
    "fst (create_epub single_world feed_url ''el_pais.epub'' initial_state) = Returned True"
    by code_simp
  ultimately show ?thesis by (intro conjI)
qed

text \<open>
  C2 (the code departs from it). The feed has one item, and the extractor returns an
  article without a publish date. \<^verbatim>\<open>article.publish_date.date()\<close> is evaluated outside
  the per-item try, so an AttributeError escapes \<^verbatim>\<open>create_epub\<close>.
\<close>

theorem undated_article_raises:
  "article_of undated ''u1'' = Some ((demo_article ''A 1'')\<lparr>publish_date := None\<rparr>)
   \<and> fst (create_epub undated feed_url ''el_pais.epub'' initial_state) = Raised AttributeError"
proof -
  have "article_of undated ''u1'' = Some ((demo_article ''A 1'')\<lparr>publish_date := None\<rparr>)"
    by code_simp
  moreover have
    "fst (create_epub undated feed_url ''el_pais.epub'' initial_state) = Raised AttributeError"
    by code_simp
  ultimately show ?thesis by (intro conjI)
qed

end
